theory Spec2Isabelle
  imports Complex_Main "HOL-Library.AList" "HOL-Library.Sublist"
begin

section \<open>Strings and numbers as the TypeScript code prints them\<close>

text \<open>
  The snapshot's numbers (ticks, item counts, experience, levels, tile coordinates) are
  integers of the game; they are modelled as \<open>int\<close>.  A template literal
  \<^verbatim>\<open>`${n}`\<close> prints such a number in decimal, with a leading minus sign (up to
  \<^verbatim>\<open>10^21\<close>, where JavaScript goes over to the exponent notation).
\<close>

definition digitChar :: "nat \<Rightarrow> char" where
  "digitChar d = ''0123456789'' ! d"

fun showNat :: "nat \<Rightarrow> string" where
  "showNat n = (if n < 10 then [digitChar n] else showNat (n div 10) @ [digitChar (n mod 10)])"

declare showNat.simps [simp del]

definition showInt :: "int \<Rightarrow> string" where
  "showInt i = (if i < 0 then CHR ''-'' # showNat (nat (- i)) else showNat (nat i))"

text \<open>
  \<^verbatim>\<open>text.replace(/@\w+@/g, '')\<close>: scanning from the left, an \<open>@\<close> followed by a
  non-empty maximal run of word characters and a closing \<open>@\<close> is removed and the scan
  goes on behind it; any other character is kept.
\<close>

definition isWordChar :: "char \<Rightarrow> bool" where
  "isWordChar c = (c \<in> set ''abcdefghijklmnopqrstuvwxyzABCDEFGHIJKLMNOPQRSTUVWXYZ0123456789_'')"

function stripMarkers :: "string \<Rightarrow> string" where
  "stripMarkers [] = []"
| "stripMarkers (c # cs) =
     (if c = CHR ''@'' \<and> takeWhile isWordChar cs \<noteq> [] \<and> dropWhile isWordChar cs \<noteq> []
         \<and> hd (dropWhile isWordChar cs) = CHR ''@''
      then stripMarkers (tl (dropWhile isWordChar cs))
      else c # stripMarkers cs)"
  by pat_completeness auto
termination
proof (relation "measure length")
  show "wf (measure (length :: string \<Rightarrow> nat))" by simp
next
  fix c :: char and cs :: string
  have "length (tl (dropWhile isWordChar cs)) \<le> length cs"
    using length_dropWhile_le [of isWordChar cs] by simp
  then show "(tl (dropWhile isWordChar cs), c # cs) \<in> measure length" by simp
next
  fix c :: char and cs :: string
  show "(cs, c # cs) \<in> measure length" by simp
qed

subsection \<open>Double-precision arithmetic on integers\<close>

text \<open>
  A JavaScript number is an IEEE 754 double: 53 significant bits, every operation rounded to
  the nearest double, ties to the even significand.  \<open>toDouble\<close> is that rounding for an
  integer: an integer below \<^verbatim>\<open>2^53\<close> in magnitude is a double, a larger one
  is rounded to a multiple of \<^verbatim>\<open>2^k\<close>, where \<open>k\<close> is its bit length less 53.  (Overflow
  to \<^verbatim>\<open>Infinity\<close>, beyond \<^verbatim>\<open>2^1024\<close>, is left out.)
\<close>

fun bitlen :: "nat \<Rightarrow> nat" where
  "bitlen n = (if n = 0 then 0 else Suc (bitlen (n div 2)))"

declare bitlen.simps [simp del]

definition toDoubleNat :: "nat \<Rightarrow> nat" where
  "toDoubleNat n =
     (if n < 2 ^ 53 then n
      else (let q = 2 ^ (bitlen n - 53); m = n div q; r = n mod q
            in if 2 * r > q \<or> (2 * r = q \<and> odd m) then (m + 1) * q else m * q))"

definition toDouble :: "int \<Rightarrow> int" where
  "toDouble i = (if i < 0 then - int (toDoubleNat (nat (- i))) else int (toDoubleNat (nat i)))"

text \<open>
  \<open>floorSqrt n\<close> is the largest \<open>r\<close> with \<open>r\<^sup>2 \<le> n\<close>, computed two bits of \<open>n\<close> at a
  time; \<open>roundSqrt n\<close> is the integer nearest to the square root of \<open>n\<close>, which is
  \<open>r + 1\<close> exactly when \<open>n\<close> lies above \<open>r\<^sup>2 + r\<close> (the square root of an integer is
  never half way between two integers).
\<close>

fun floorSqrt :: "nat \<Rightarrow> nat" where
  "floorSqrt n =
     (if n = 0 then 0
      else (let r = 2 * floorSqrt (n div 4) in if (r + 1) * (r + 1) \<le> n then r + 1 else r))"

declare floorSqrt.simps [simp del]

definition roundSqrt :: "nat \<Rightarrow> nat" where
  "roundSqrt n = (let r = floorSqrt n in if n > r * r + r then r + 1 else r)"

text \<open>
  \<^verbatim>\<open>Math.sqrt(n)\<close> for a double \<open>n\<close> that is a positive integer is the double nearest to
  the square root of \<open>n\<close>.  With \<open>e = log4 n\<close>, that is \<^verbatim>\<open>4^e <= n < 4^(e+1)\<close>, the
  square root lies between \<^verbatim>\<open>2^e\<close> and \<^verbatim>\<open>2^(e+1)\<close>, where the doubles are the
  multiples \<^verbatim>\<open>m * 2^e / 2^52\<close>; \<open>sqrtSignificand n\<close> is the \<open>m\<close> of the
  nearest one.  Up to \<open>e = 52\<close> it is the integer nearest to the square root of
  \<^verbatim>\<open>n * 4^(52-e)\<close>; beyond, the doubles are \<^verbatim>\<open>q = 2^(e-52)\<close> apart, \<open>m\<close> or
  \<open>m + 1\<close> is chosen by comparing \<open>n\<close> with the square of the midpoint \<^verbatim>\<open>(2m+1) * q / 2\<close>,
  and a tie goes to the even one.  The double is given as the real number it denotes.
  \<^verbatim>\<open>Math.round(x)\<close> is the integer nearest to \<open>x\<close>, the larger one in a tie.
\<close>

fun log4 :: "nat \<Rightarrow> nat" where
  "log4 n = (if n < 4 then 0 else Suc (log4 (n div 4)))"

declare log4.simps [simp del]

definition sqrtSignificand :: "nat \<Rightarrow> nat" where
  "sqrtSignificand n =
     (let e = log4 n
      in if e \<le> 52 then roundSqrt (n * 4 ^ (52 - e))
         else (let q = 2 ^ (e - 52); m = floorSqrt (n div (q * q))
               in if 4 * n > (2 * m + 1) * (2 * m + 1) * (q * q)
                     \<or> (4 * n = (2 * m + 1) * (2 * m + 1) * (q * q) \<and> odd m)
                  then m + 1 else m))"

definition mathSqrt :: "int \<Rightarrow> real" where
  "mathSqrt n =
     (if n \<le> 0 then 0
      else real (sqrtSignificand (nat n)) * 2 ^ log4 (nat n) / 2 ^ 52)"

definition mathRound :: "real \<Rightarrow> int" where
  "mathRound x = \<lfloor>x + 1 / 2\<rfloor>"

section \<open>World snapshots\<close>

text \<open>
  The snapshot types (\<^verbatim>\<open>BotWorldState\<close>, \<^verbatim>\<open>InventoryItem\<close>, \<^verbatim>\<open>SkillState\<close>,
  \<^verbatim>\<open>NearbyNpc\<close>) are declared in \<^verbatim>\<open>./types\<close>; the records below hold the fields that
  \<^verbatim>\<open>computeStateDiff\<close> reads.  An optional field (\<^verbatim>\<open>combatEvents\<close>, \<^verbatim>\<open>player\<close>,
  \<^verbatim>\<open>interface\<close>, \<^verbatim>\<open>shop\<close>, \<^verbatim>\<open>gameMessages\<close>) is an \<open>option\<close>.  Of the dialog
  and of the interface only the flag \<^verbatim>\<open>isOpen\<close> is read: \<open>dialog\<close> is that flag, and
  \<open>interface\<close> is the flag of the interface when there is one.  An event type other than
  the three that \<^verbatim>\<open>computeStateDiff\<close> tests for is \<open>other_event\<close>.
\<close>

record InventoryItem =
  item_id :: int
  item_name :: string
  item_count :: int

record SkillState =
  skill_name :: string
  experience :: int
  level :: int
  baseLevel :: int

datatype CombatEventType = damage_taken | damage_dealt | kill | other_event

record CombatEvent =
  ev_tick :: int
  ev_type :: CombatEventType
  damage :: int

record Player =
  worldX :: int
  worldZ :: int

record NearbyNpc =
  npc_index :: int
  npc_name :: string
  inCombat :: bool

record GameMessage =
  msg_tick :: int
  msg_text :: string

record Shop =
  shop_isOpen :: bool
  shop_title :: string

record BotWorldState =
  tick :: int
  inventory :: "InventoryItem list"
  skills :: "SkillState list"
  combatEvents :: "CombatEvent list option"
  player :: "Player option"
  dialog :: bool
  interface :: "bool option"
  shop :: "Shop option"
  nearbyNpcs :: "NearbyNpc list"
  gameMessages :: "GameMessage list option"

section \<open>The diff of two snapshots\<close>

record TickInfo =
  tick_before :: int
  tick_after :: int
  elapsed :: int

record ItemCount =
  ic_name :: string
  ic_count :: int
  ic_id :: int

record ItemChange =
  chg_name :: string
  chg_count :: int
  chg_id :: int
  chg_before :: int
  chg_after :: int

record InventoryDiff =
  gained :: "ItemCount list"
  lost :: "ItemCount list"
  changed :: "ItemChange list"

record XpGain =
  xp_name :: string
  xp :: int
  levelUp :: bool
  newLevel :: "int option"

record SkillsDiff =
  xpGained :: "XpGain list"

record CombatDiff =
  damageTaken :: int
  damageDealt :: int
  kills :: int
  healthChange :: int

record PositionDiff =
  moved :: bool
  pos_from :: "(int \<times> int) option"
  pos_to :: "(int \<times> int) option"
  distance :: int

record UiDiff =
  dialogOpened :: bool
  dialogClosed :: bool
  interfaceOpened :: bool
  interfaceClosed :: bool
  shopOpened :: bool
  shopClosed :: bool

record NpcRef =
  ref_name :: string
  ref_index :: int

record NpcsDiff =
  appeared :: "NpcRef list"
  disappeared :: "NpcRef list"
  died :: "NpcRef list"

record StateDiff =
  diff_tick :: TickInfo
  diff_inventory :: InventoryDiff
  diff_skills :: SkillsDiff
  combat :: CombatDiff
  position :: PositionDiff
  ui :: UiDiff
  npcs :: NpcsDiff
  messages :: "string list"
  summary :: "string list"

definition createEmptyDiff :: "int \<Rightarrow> StateDiff" where
  "createEmptyDiff t =
     \<lparr> diff_tick = \<lparr> tick_before = t, tick_after = t, elapsed = 0 \<rparr>,
       diff_inventory = \<lparr> gained = [], lost = [], changed = [] \<rparr>,
       diff_skills = \<lparr> xpGained = [] \<rparr>,
       combat = \<lparr> damageTaken = 0, damageDealt = 0, kills = 0, healthChange = 0 \<rparr>,
       position = \<lparr> moved = False, pos_from = None, pos_to = None, distance = 0 \<rparr>,
       ui = \<lparr> dialogOpened = False, dialogClosed = False,
              interfaceOpened = False, interfaceClosed = False,
              shopOpened = False, shopClosed = False \<rparr>,
       npcs = \<lparr> appeared = [], disappeared = [], died = [] \<rparr>,
       messages = [],
       summary = [] \<rparr>"

subsection \<open>Inventory\<close>

text \<open>
  A JavaScript \<^verbatim>\<open>Map\<close> iterates in insertion order and keeps the place of a key whose
  value is replaced: an association list with \<open>AList.update\<close>, read with \<open>map_of\<close>.
\<close>

fun groupInventory :: "InventoryItem list \<Rightarrow> (int \<times> ItemCount) list \<Rightarrow> (int \<times> ItemCount) list" where
  "groupInventory [] m = m"
| "groupInventory (item # items) m =
     groupInventory items
       (case map_of m (item_id item) of
          Some existing \<Rightarrow>
            AList.update (item_id item) (existing\<lparr> ic_count := ic_count existing + item_count item \<rparr>) m
        | None \<Rightarrow>
            AList.update (item_id item)
              \<lparr> ic_name = item_name item, ic_count = item_count item, ic_id = item_id item \<rparr> m)"

fun findGained :: "(int \<times> ItemCount) list \<Rightarrow> (int \<times> ItemCount) list \<Rightarrow> StateDiff \<Rightarrow> StateDiff" where
  "findGained beforeInv [] diff = diff"
| "findGained beforeInv ((i, item) # rest) diff =
     findGained beforeInv rest
       (case map_of beforeInv i of
          None \<Rightarrow>
            diff\<lparr> diff_inventory := (diff_inventory diff)\<lparr> gained := gained (diff_inventory diff) @ [item] \<rparr>,
                  summary := summary diff @ [''+'' @ showInt (ic_count item) @ '' '' @ ic_name item] \<rparr>
        | Some beforeItem \<Rightarrow>
            if ic_count item > ic_count beforeItem
            then diff\<lparr> diff_inventory := (diff_inventory diff)\<lparr> changed := changed (diff_inventory diff) @
                          [\<lparr> chg_name = ic_name item, chg_count = ic_count item, chg_id = ic_id item,
                             chg_before = ic_count beforeItem, chg_after = ic_count item \<rparr>] \<rparr>,
                       summary := summary diff @
                          [''+'' @ showInt (ic_count item - ic_count beforeItem) @ '' '' @ ic_name item] \<rparr>
            else diff)"

fun findLost :: "(int \<times> ItemCount) list \<Rightarrow> (int \<times> ItemCount) list \<Rightarrow> StateDiff \<Rightarrow> StateDiff" where
  "findLost afterInv [] diff = diff"
| "findLost afterInv ((i, item) # rest) diff =
     findLost afterInv rest
       (case map_of afterInv i of
          None \<Rightarrow>
            diff\<lparr> diff_inventory := (diff_inventory diff)\<lparr> lost := lost (diff_inventory diff) @ [item] \<rparr>,
                  summary := summary diff @ [''-'' @ showInt (ic_count item) @ '' '' @ ic_name item] \<rparr>
        | Some afterItem \<Rightarrow>
            if ic_count afterItem < ic_count item
            then diff\<lparr> diff_inventory :=
                         (if find (\<lambda>c. chg_id c = i) (changed (diff_inventory diff)) = None
                          then (diff_inventory diff)\<lparr> changed := changed (diff_inventory diff) @
                                 [\<lparr> chg_name = ic_name item, chg_count = ic_count item, chg_id = ic_id item,
                                    chg_before = ic_count item, chg_after = ic_count afterItem \<rparr>] \<rparr>
                          else diff_inventory diff),
                       summary := summary diff @
                          [''-'' @ showInt (ic_count item - ic_count afterItem) @ '' '' @ ic_name item] \<rparr>
            else diff)"

subsection \<open>Skills\<close>

fun skillMap :: "SkillState list \<Rightarrow> (string \<times> SkillState) list \<Rightarrow> (string \<times> SkillState) list" where
  "skillMap [] m = m"
| "skillMap (skill # rest) m = skillMap rest (AList.update (skill_name skill) skill m)"

fun skillChanges :: "(string \<times> SkillState) list \<Rightarrow> SkillState list \<Rightarrow> StateDiff \<Rightarrow> StateDiff" where
  "skillChanges beforeSkills [] diff = diff"
| "skillChanges beforeSkills (skill # rest) diff =
     skillChanges beforeSkills rest
       (case map_of beforeSkills (skill_name skill) of
          None \<Rightarrow> diff
        | Some beforeSkill \<Rightarrow>
            if experience skill > experience beforeSkill
            then (let xpGain = experience skill - experience beforeSkill;
                      lvlUp = baseLevel skill > baseLevel beforeSkill
                  in diff\<lparr> diff_skills := (diff_skills diff)\<lparr> xpGained := xpGained (diff_skills diff) @
                               [\<lparr> xp_name = skill_name skill, xp = xpGain, levelUp = lvlUp,
                                  newLevel = (if lvlUp then Some (baseLevel skill) else None) \<rparr>] \<rparr>,
                            summary := summary diff @
                               [if lvlUp
                                then ''LEVEL UP! '' @ skill_name skill @ '' -> '' @ showInt (baseLevel skill)
                                else ''+'' @ showInt xpGain @ '' '' @ skill_name skill @ '' XP''] \<rparr>)
            else diff)"

subsection \<open>Combat\<close>

definition hitpoints :: "BotWorldState \<Rightarrow> int" where
  "hitpoints s = (case find (\<lambda>sk. skill_name sk = ''Hitpoints'') (skills s) of
                    Some sk \<Rightarrow> level sk | None \<Rightarrow> 10)"

fun combatLoop :: "CombatEvent list \<Rightarrow> StateDiff \<Rightarrow> StateDiff" where
  "combatLoop [] diff = diff"
| "combatLoop (evt # rest) diff =
     combatLoop rest
       (if ev_type evt = damage_taken
        then diff\<lparr> combat := (combat diff)\<lparr> damageTaken := damageTaken (combat diff) + damage evt \<rparr> \<rparr>
        else if ev_type evt = damage_dealt
        then diff\<lparr> combat := (combat diff)\<lparr> damageDealt := damageDealt (combat diff) + damage evt \<rparr> \<rparr>
        else if ev_type evt = kill
        then diff\<lparr> combat := (combat diff)\<lparr> kills := kills (combat diff) + 1 \<rparr> \<rparr>
        else diff)"

definition combatEventsStep :: "BotWorldState \<Rightarrow> BotWorldState \<Rightarrow> StateDiff \<Rightarrow> StateDiff" where
  "combatEventsStep before after diff =
     (case combatEvents after of
        None \<Rightarrow> diff
      | Some evs \<Rightarrow> combatLoop (filter (\<lambda>e. ev_tick e > tick before) evs) diff)"

definition combatSummary :: "StateDiff \<Rightarrow> StateDiff" where
  "combatSummary diff =
     (let d1 = (if damageTaken (combat diff) > 0
                then diff\<lparr> summary := summary diff @
                       [''Took '' @ showInt (damageTaken (combat diff)) @ '' damage''] \<rparr>
                else diff);
          d2 = (if damageDealt (combat d1) > 0
                then d1\<lparr> summary := summary d1 @
                       [''Dealt '' @ showInt (damageDealt (combat d1)) @ '' damage''] \<rparr>
                else d1)
      in (if kills (combat d2) > 0
          then d2\<lparr> summary := summary d2 @
                 [''Killed '' @ showInt (kills (combat d2)) @ '' target(s)''] \<rparr>
          else d2))"

subsection \<open>Position\<close>

text \<open>
  The tile coordinates are integers held in doubles; the differences, the two squares and
  their sum are each rounded to a double, and \<^verbatim>\<open>dist\<close> is the double square root of the
  sum (the sum is never negative).  Lemmas \<open>distSquared_exact\<close>, \<open>mathRound_mathSqrt\<close>
  and \<open>mathSqrt_threshold\<close> below show that for positions less than \<^verbatim>\<open>2^25\<close> tiles
  apart nothing is lost to the rounding of the doubles; lemma \<open>mathRound_deviates\<close> gives
  a larger distance where the rounded double square root is not the rounded square root.
\<close>

definition distSquared :: "Player \<Rightarrow> Player \<Rightarrow> int" where
  "distSquared bp ap =
     (let dx = toDouble (worldX ap - worldX bp); dz = toDouble (worldZ ap - worldZ bp)
      in toDouble (toDouble (dx * dx) + toDouble (dz * dz)))"

definition positionStep :: "BotWorldState \<Rightarrow> BotWorldState \<Rightarrow> StateDiff \<Rightarrow> StateDiff" where
  "positionStep before after diff =
     (case player before of
        None \<Rightarrow> diff
      | Some bp \<Rightarrow>
         (case player after of
            None \<Rightarrow> diff
          | Some ap \<Rightarrow>
              (let dist = mathSqrt (distSquared bp ap)
               in if dist > 0
                  then (let d1 = diff\<lparr> position :=
                                   \<lparr> moved = True,
                                     pos_from = Some (worldX bp, worldZ bp),
                                     pos_to = Some (worldX ap, worldZ ap),
                                     distance = mathRound dist \<rparr> \<rparr>
                        in if dist \<ge> 5
                           then d1\<lparr> summary := summary d1 @
                                  [''Moved '' @ showInt (mathRound dist) @ '' tiles''] \<rparr>
                           else d1)
                  else diff)))"

subsection \<open>Dialog, interface and shop\<close>

definition isOpenOpt :: "bool option \<Rightarrow> bool" where
  "isOpenOpt i = (case i of None \<Rightarrow> False | Some b \<Rightarrow> b)"

definition shopIsOpen :: "Shop option \<Rightarrow> bool" where
  "shopIsOpen s = (case s of None \<Rightarrow> False | Some sh \<Rightarrow> shop_isOpen sh)"

definition shopTitle :: "Shop option \<Rightarrow> string" where
  "shopTitle s = (case s of None \<Rightarrow> ''undefined'' | Some sh \<Rightarrow> shop_title sh)"

definition uiStep :: "BotWorldState \<Rightarrow> BotWorldState \<Rightarrow> StateDiff \<Rightarrow> StateDiff" where
  "uiStep before after diff =
     (let u = \<lparr> dialogOpened = (\<not> dialog before \<and> dialog after),
                dialogClosed = (dialog before \<and> \<not> dialog after),
                interfaceOpened = (\<not> isOpenOpt (interface before) \<and> isOpenOpt (interface after)),
                interfaceClosed = (isOpenOpt (interface before) \<and> \<not> isOpenOpt (interface after)),
                shopOpened = (\<not> shopIsOpen (shop before) \<and> shopIsOpen (shop after)),
                shopClosed = (shopIsOpen (shop before) \<and> \<not> shopIsOpen (shop after)) \<rparr>
      in diff\<lparr> ui := u,
               summary := summary diff
                 @ (if dialogOpened u then [''Dialog opened''] else [])
                 @ (if dialogClosed u then [''Dialog closed''] else [])
                 @ (if shopOpened u then [''Shop opened: '' @ shopTitle (shop after)] else [])
                 @ (if shopClosed u then [''Shop closed''] else []) \<rparr>)"

subsection \<open>Nearby NPCs\<close>

fun npcMap :: "NearbyNpc list \<Rightarrow> (int \<times> NearbyNpc) list \<Rightarrow> (int \<times> NearbyNpc) list" where
  "npcMap [] m = m"
| "npcMap (npc # rest) m = npcMap rest (AList.update (npc_index npc) npc m)"

fun appearedLoop ::
  "(int \<times> NearbyNpc) list \<Rightarrow> NearbyNpc list \<Rightarrow> (int \<times> NearbyNpc) list \<times> StateDiff
     \<Rightarrow> (int \<times> NearbyNpc) list \<times> StateDiff" where
  "appearedLoop beforeNpcs [] acc = acc"
| "appearedLoop beforeNpcs (npc # rest) (afterNpcs, diff) =
     appearedLoop beforeNpcs rest
       (AList.update (npc_index npc) npc afterNpcs,
        if map_of beforeNpcs (npc_index npc) = None
        then diff\<lparr> npcs := (npcs diff)\<lparr> appeared := appeared (npcs diff) @
                     [\<lparr> ref_name = npc_name npc, ref_index = npc_index npc \<rparr>] \<rparr> \<rparr>
        else diff)"

fun disappearedLoop :: "(int \<times> NearbyNpc) list \<Rightarrow> (int \<times> NearbyNpc) list \<Rightarrow> StateDiff \<Rightarrow> StateDiff" where
  "disappearedLoop afterNpcs [] diff = diff"
| "disappearedLoop afterNpcs ((idx, npc) # rest) diff =
     disappearedLoop afterNpcs rest
       (if map_of afterNpcs idx = None
        then (let d1 = diff\<lparr> npcs := (npcs diff)\<lparr> disappeared := disappeared (npcs diff) @
                               [\<lparr> ref_name = npc_name npc, ref_index = idx \<rparr>] \<rparr> \<rparr>
              in if inCombat npc
                 then d1\<lparr> npcs := (npcs d1)\<lparr> died := died (npcs d1) @
                               [\<lparr> ref_name = npc_name npc, ref_index = idx \<rparr>] \<rparr>,
                          summary := summary d1 @ [npc_name npc @ '' died''] \<rparr>
                 else d1)
        else diff)"

subsection \<open>Game messages\<close>

definition messagesStep :: "BotWorldState \<Rightarrow> BotWorldState \<Rightarrow> StateDiff \<Rightarrow> StateDiff" where
  "messagesStep before after diff =
     (case gameMessages after of
        None \<Rightarrow> diff
      | Some msgs \<Rightarrow>
          diff\<lparr> messages := map (\<lambda>m. stripMarkers (msg_text m))
                               (filter (\<lambda>m. msg_tick m > tick before) msgs) \<rparr>)"

subsection \<open>\<^verbatim>\<open>computeStateDiff\<close>\<close>

definition computeStateDiff :: "BotWorldState \<Rightarrow> BotWorldState \<Rightarrow> StateDiff" where
  "computeStateDiff before after =
     (let diff0 = (createEmptyDiff (tick before))
                    \<lparr> diff_tick := \<lparr> tick_before = tick before, tick_after = tick after,
                                     elapsed = tick after - tick before \<rparr> \<rparr>;
          beforeInv = groupInventory (inventory before) [];
          afterInv = groupInventory (inventory after) [];
          diff1 = findGained beforeInv afterInv diff0;
          diff2 = findLost afterInv beforeInv diff1;
          beforeSkills = skillMap (skills before) [];
          diff3 = skillChanges beforeSkills (skills after) diff2;
          diff4 = diff3\<lparr> combat := (combat diff3)\<lparr> healthChange := hitpoints after - hitpoints before \<rparr> \<rparr>;
          diff5 = combatEventsStep before after diff4;
          diff6 = combatSummary diff5;
          diff7 = positionStep before after diff6;
          diff8 = uiStep before after diff7;
          beforeNpcs = npcMap (nearbyNpcs before) [];
          (afterNpcs, diff9) = appearedLoop beforeNpcs (nearbyNpcs after) ([], diff8);
          diff10 = disappearedLoop afterNpcs beforeNpcs diff9
      in messagesStep before after diff10)"

subsection \<open>What one skill of the later snapshot adds to \<open>xpGained\<close>\<close>

definition xpEntry :: "(string \<times> SkillState) list \<Rightarrow> SkillState \<Rightarrow> XpGain option" where
  "xpEntry beforeSkills skill =
     (case map_of beforeSkills (skill_name skill) of
        None \<Rightarrow> None
      | Some beforeSkill \<Rightarrow>
          if experience skill > experience beforeSkill
          then Some \<lparr> xp_name = skill_name skill,
                      xp = experience skill - experience beforeSkill,
                      levelUp = (baseLevel skill > baseLevel beforeSkill),
                      newLevel = (if baseLevel skill > baseLevel beforeSkill
                                  then Some (baseLevel skill) else None) \<rparr>
          else None)"


subsection \<open>Example snapshots\<close>

definition optList :: "'a list option \<Rightarrow> 'a list" where
  "optList x = (case x of None \<Rightarrow> [] | Some xs \<Rightarrow> xs)"

definition emptySnapshot :: BotWorldState where
  "emptySnapshot =
     \<lparr> tick = 0, inventory = [], skills = [], combatEvents = None, player = None,
       dialog = False, interface = None, shop = None, nearbyNpcs = [], gameMessages = None \<rparr>"

definition busySnapshot :: BotWorldState where
  "busySnapshot =
     \<lparr> tick = 10,
       inventory = [\<lparr> item_id = 995, item_name = ''Coins'', item_count = 100 \<rparr>,
                    \<lparr> item_id = 1511, item_name = ''Logs'', item_count = 1 \<rparr>,
                    \<lparr> item_id = 995, item_name = ''Coins'', item_count = 50 \<rparr>],
       skills = [\<lparr> skill_name = ''Attack'', experience = 388, level = 5, baseLevel = 5 \<rparr>,
                 \<lparr> skill_name = ''Hitpoints'', experience = 1154, level = 7, baseLevel = 10 \<rparr>],
       combatEvents = Some [\<lparr> ev_tick = 9, ev_type = damage_taken, damage = 3 \<rparr>,
                            \<lparr> ev_tick = 10, ev_type = kill, damage = 0 \<rparr>],
       player = Some \<lparr> worldX = 3222, worldZ = 3218 \<rparr>,
       dialog = True, interface = Some True,
       shop = Some \<lparr> shop_isOpen = True, shop_title = ''General Store'' \<rparr>,
       nearbyNpcs = [\<lparr> npc_index = 7, npc_name = ''Goblin'', inCombat = True \<rparr>,
                     \<lparr> npc_index = 8, npc_name = ''Goblin'', inCombat = False \<rparr>],
       gameMessages = Some [\<lparr> msg_tick = 10, msg_text = ''@red@You defeat the goblin.'' \<rparr>] \<rparr>"

definition lateMessageSnapshot :: BotWorldState where
  "lateMessageSnapshot =
     emptySnapshot\<lparr> gameMessages := Some [\<lparr> msg_tick = 1, msg_text = ''Welcome'' \<rparr>] \<rparr>"

definition lateKillSnapshot :: BotWorldState where
  "lateKillSnapshot =
     emptySnapshot\<lparr> combatEvents := Some [\<lparr> ev_tick = 1, ev_type = kill, damage = 0 \<rparr>] \<rparr>"

definition twoAttackSnapshot :: BotWorldState where
  "twoAttackSnapshot =
     emptySnapshot\<lparr> skills := [\<lparr> skill_name = ''Attack'', experience = 100, level = 1, baseLevel = 1 \<rparr>,
                               \<lparr> skill_name = ''Attack'', experience = 50, level = 1, baseLevel = 1 \<rparr>] \<rparr>"

definition attackSnapshot :: "int \<Rightarrow> int \<Rightarrow> BotWorldState" where
  "attackSnapshot e lvl =
     emptySnapshot\<lparr> skills := [\<lparr> skill_name = ''Attack'', experience = e, level = lvl, baseLevel = lvl \<rparr>] \<rparr>"

definition playerAt :: "int \<Rightarrow> int \<Rightarrow> BotWorldState" where
  "playerAt x z = emptySnapshot\<lparr> player := Some \<lparr> worldX = x, worldZ = z \<rparr> \<rparr>"

section \<open>The task context\<close>

text \<open>
  A call that may throw returns an \<open>Outcome\<close>: the value, or the value thrown (for a
  promise, the value it is rejected with).  Any JavaScript value can be thrown.  Of a value
  it catches the code reads the property \<^verbatim>\<open>message\<close>, to print it, and nothing else, so
  the thrown values are told apart by what that gives: \<open>ErrorObject msg\<close> is an
  \<^verbatim>\<open>Error\<close>, as in \<^verbatim>\<open>throw new Error(msg)\<close>, or any other object whose \<^verbatim>\<open>message\<close>
  prints as \<open>msg\<close>; \<open>OtherValue\<close> is a value with no such property that is neither
  \<^verbatim>\<open>undefined\<close> nor \<^verbatim>\<open>null\<close> (the read gives \<^verbatim>\<open>undefined\<close>); \<open>Undefined\<close> and
  \<open>Null\<close> are the two values of which no property can be read (\<^verbatim>\<open>Promise.reject()\<close>
  rejects with \<^verbatim>\<open>undefined\<close>); \<open>Unreadable t\<close> is an object whose \<^verbatim>\<open>message\<close> is a
  getter that throws \<open>t\<close>, or a value whose conversion to a string throws \<open>t\<close>.
\<close>

datatype Thrown = ErrorObject string | OtherValue | Undefined | Null | Unreadable Thrown

datatype 'a Outcome = Value 'a | Throws Thrown

text \<open>
  \<^verbatim>\<open>error.message\<close>, as a template literal prints it.  Reading a property of
  \<^verbatim>\<open>undefined\<close> or \<^verbatim>\<open>null\<close> throws a \<^verbatim>\<open>TypeError\<close>, which is an \<^verbatim>\<open>Error\<close>; the
  wording of its message is the engine's (here V8's).
\<close>

definition propertyReadError :: "Thrown \<Rightarrow> Thrown" where
  "propertyReadError v =
     ErrorObject (''Cannot read properties of ''
                  @ (case v of Null \<Rightarrow> ''null'' | _ \<Rightarrow> ''undefined'')
                  @ '' (reading '' @ [CHR 0x27] @ ''message'' @ [CHR 0x27] @ '')'')"

definition errorMessage :: "Thrown \<Rightarrow> string Outcome" where
  "errorMessage error =
     (case error of
        ErrorObject msg \<Rightarrow> Value msg
      | OtherValue \<Rightarrow> Value ''undefined''
      | Undefined \<Rightarrow> Throws (propertyReadError Undefined)
      | Null \<Rightarrow> Throws (propertyReadError Null)
      | Unreadable t \<Rightarrow> Throws t)"

datatype ProgressStatus = p_starting | p_in_progress | p_completed | p_failed | p_paused

datatype ContextStatus = c_running | c_paused | c_completed | c_failed | c_aborted

record ProgressCount =
  pc_current :: int
  pc_total :: int
  pc_unit :: "string option"

record TaskProgress =
  action :: string
  tp_status :: ProgressStatus
  progress :: "ProgressCount option"
  message :: "string option"
  data :: "string option"

text \<open>The argument of \<^verbatim>\<open>reportProgress\<close>: a \<^verbatim>\<open>TaskProgress\<close> whose status is optional.\<close>

record ProgressArgs =
  pa_action :: string
  pa_status :: "ProgressStatus option"
  pa_progress :: "ProgressCount option"
  pa_message :: "string option"
  pa_data :: "string option"

record CheckpointResult =
  continue :: bool
  newInstructions :: "string option"
  abort :: "bool option"
  cr_abortReason :: "string option"

record TaskStatus =
  ts_taskId :: string
  ts_status :: ContextStatus
  ts_currentAction :: string
  ts_startTime :: int
  elapsedMs :: int
  ts_checkpointCount :: nat
  lastCheckpointTime :: int
  stateDiff :: StateDiff
  accumulatedDiff :: StateDiff
  ts_progressReports :: "TaskProgress list"
  worldState :: string
  error :: "string option"

text \<open>
  What a call reads from outside the engine: the clock (\<^verbatim>\<open>Date.now()\<close>), the SDK's current
  snapshot (\<^verbatim>\<open>sdk.getState()\<close>) and the text \<^verbatim>\<open>formatWorldState\<close> makes of it.
\<close>

record Env =
  now :: int
  sdkState :: "BotWorldState option"
  formatted :: string

text \<open>
  The fields of the class \<^verbatim>\<open>TaskContext\<close>.  \<open>onProgress\<close> and \<open>onCheckpoint\<close> say
  whether a callback is registered, \<open>stateListener\<close> whether the subscription to state
  updates is live, and \<open>lastAutoProgress\<close> is the variable the state listener closes over.
\<close>

record TaskContext =
  taskId :: string
  ctx_startTime :: int
  startState :: "BotWorldState option"
  lastCheckpointState :: "BotWorldState option"
  checkpointCount :: nat
  currentAction :: string
  ctx_status :: ContextStatus
  progressReports :: "TaskProgress list"
  onProgress :: bool
  onCheckpoint :: bool
  progressInterval :: int
  stateListener :: bool
  lastAutoProgress :: int
  lastProgressReport :: int
  abortReason :: "string option"
  logs :: "string list"

text \<open>\<^verbatim>\<open>x || d\<close> for an optional string: the default replaces a missing or empty one.\<close>

definition orElse :: "string option \<Rightarrow> string \<Rightarrow> string" where
  "orElse x d = (case x of None \<Rightarrow> d | Some s \<Rightarrow> if s = [] then d else s)"

definition joinWith :: "string \<Rightarrow> string list \<Rightarrow> string" where
  "joinWith sep xs = (case xs of [] \<Rightarrow> [] | y # ys \<Rightarrow> foldl (\<lambda>acc z. acc @ sep @ z) y ys)"

definition newTaskContext :: "Env \<Rightarrow> string \<Rightarrow> bool \<Rightarrow> bool \<Rightarrow> int option \<Rightarrow> TaskContext" where
  "newTaskContext env tid hasProgress hasCheckpoint interval =
     \<lparr> taskId = tid,
       ctx_startTime = now env,
       startState = sdkState env,
       lastCheckpointState = sdkState env,
       checkpointCount = 0,
       currentAction = ''initializing'',
       ctx_status = c_running,
       progressReports = [],
       onProgress = hasProgress,
       onCheckpoint = hasCheckpoint,
       progressInterval = (case interval of None \<Rightarrow> 5000 | Some i \<Rightarrow> i),
       stateListener = True,
       lastAutoProgress = now env,
       lastProgressReport = 0,
       abortReason = None,
       logs = [] \<rparr>"

definition log :: "string \<Rightarrow> TaskContext \<Rightarrow> TaskContext" where
  "log msg ctx = ctx\<lparr> logs := logs ctx @ [msg] \<rparr>"

definition warn :: "string \<Rightarrow> TaskContext \<Rightarrow> TaskContext" where
  "warn msg ctx = ctx\<lparr> logs := logs ctx @ [''[warn] '' @ msg] \<rparr>"

text \<open>
  A context operation returns the new context and the reports it passed to the
  \<^verbatim>\<open>onProgress\<close> callback, in order.
\<close>

definition reportProgress :: "Env \<Rightarrow> ProgressArgs \<Rightarrow> TaskContext \<Rightarrow> TaskContext \<times> TaskProgress list" where
  "reportProgress env args ctx =
     (let fullProgress = \<lparr> action = pa_action args,
                            tp_status = (case pa_status args of None \<Rightarrow> p_in_progress | Some s \<Rightarrow> s),
                            progress = pa_progress args,
                            message = pa_message args,
                            data = pa_data args \<rparr>;
          ctx1 = ctx\<lparr> progressReports := progressReports ctx @ [fullProgress],
                      lastProgressReport := now env \<rparr>;
          emitted = (if onProgress ctx1 then [fullProgress] else [])
      in (log (''[Progress] '' @ pa_action args @ '': '' @ orElse (pa_message args) '''') ctx1, emitted))"

definition setAction :: "Env \<Rightarrow> string \<Rightarrow> TaskContext \<Rightarrow> TaskContext \<times> TaskProgress list" where
  "setAction env a ctx =
     reportProgress env
       \<lparr> pa_action = a, pa_status = Some p_starting, pa_progress = None,
         pa_message = Some (''Starting: '' @ a), pa_data = None \<rparr>
       (ctx\<lparr> currentAction := a \<rparr>)"

definition shouldContinue :: "TaskContext \<Rightarrow> bool" where
  "shouldContinue ctx = (ctx_status ctx = c_running)"

definition getStateDiffFromStart :: "Env \<Rightarrow> TaskContext \<Rightarrow> StateDiff" where
  "getStateDiffFromStart env ctx =
     (case startState ctx of
        None \<Rightarrow> createEmptyDiff 0
      | Some s \<Rightarrow> (case sdkState env of
                     None \<Rightarrow> createEmptyDiff 0
                   | Some currentState \<Rightarrow> computeStateDiff s currentState))"

definition getStateDiffSinceLastCheckpoint :: "Env \<Rightarrow> TaskContext \<Rightarrow> StateDiff" where
  "getStateDiffSinceLastCheckpoint env ctx =
     (case lastCheckpointState ctx of
        None \<Rightarrow> createEmptyDiff 0
      | Some s \<Rightarrow> (case sdkState env of
                     None \<Rightarrow> createEmptyDiff 0
                   | Some currentState \<Rightarrow> computeStateDiff s currentState))"

text \<open>\<^verbatim>\<open>xs.slice(-10)\<close>: the last ten elements, or all of them when there are fewer.\<close>

definition sliceLast :: "nat \<Rightarrow> 'a list \<Rightarrow> 'a list" where
  "sliceLast n xs = drop (length xs - n) xs"

definition getStatus :: "Env \<Rightarrow> TaskContext \<Rightarrow> TaskStatus" where
  "getStatus env ctx =
     \<lparr> ts_taskId = taskId ctx,
       ts_status = ctx_status ctx,
       ts_currentAction = currentAction ctx,
       ts_startTime = ctx_startTime ctx,
       elapsedMs = now env - ctx_startTime ctx,
       ts_checkpointCount = checkpointCount ctx,
       lastCheckpointTime = lastProgressReport ctx,
       stateDiff = getStateDiffSinceLastCheckpoint env ctx,
       accumulatedDiff = getStateDiffFromStart env ctx,
       ts_progressReports = sliceLast 10 (progressReports ctx),
       worldState = (case sdkState env of None \<Rightarrow> ''(no state)'' | Some s \<Rightarrow> formatted env),
       error = abortReason ctx \<rparr>"

definition getLogs :: "TaskContext \<Rightarrow> string list" where
  "getLogs ctx = logs ctx"

definition complete :: "Env \<Rightarrow> string option \<Rightarrow> TaskContext \<Rightarrow> TaskContext \<times> TaskProgress list" where
  "complete env result ctx =
     reportProgress env
       \<lparr> pa_action = currentAction ctx, pa_status = Some p_completed, pa_progress = None,
         pa_message = Some ''Task completed'', pa_data = result \<rparr>
       (ctx\<lparr> ctx_status := c_completed \<rparr>)"

definition fail :: "Env \<Rightarrow> string \<Rightarrow> TaskContext \<Rightarrow> TaskContext \<times> TaskProgress list" where
  "fail env err ctx =
     reportProgress env
       \<lparr> pa_action = currentAction ctx, pa_status = Some p_failed, pa_progress = None,
         pa_message = Some err, pa_data = None \<rparr>
       (ctx\<lparr> ctx_status := c_failed, abortReason := Some err \<rparr>)"

definition ctxCleanup :: "TaskContext \<Rightarrow> TaskContext" where
  "ctxCleanup ctx = ctx\<lparr> stateListener := False \<rparr>"

text \<open>
  The listener \<^verbatim>\<open>setupStateMonitoring\<close> subscribes: nothing happens once the subscription
  is released.
\<close>

definition onStateUpdate :: "Env \<Rightarrow> TaskContext \<Rightarrow> TaskContext \<times> TaskProgress list" where
  "onStateUpdate env ctx =
     (if stateListener ctx \<and> onProgress ctx \<and> now env - lastAutoProgress ctx \<ge> progressInterval ctx
      then (let ctx1 = ctx\<lparr> lastAutoProgress := now env \<rparr>;
                diff = getStateDiffSinceLastCheckpoint env ctx1
            in (ctx1,
                if summary diff \<noteq> []
                then [\<lparr> action = currentAction ctx1, tp_status = p_in_progress, progress = None,
                         message = Some (joinWith '', '' (summary diff)), data = None \<rparr>]
                else []))
      else (ctx, []))"

subsection \<open>\<^verbatim>\<open>checkpoint\<close>\<close>

text \<open>
  \<^verbatim>\<open>checkpoint\<close> runs up to the \<^verbatim>\<open>await\<close> of the handler (\<open>checkpointBegin\<close>), and
  goes on when the handler's promise settles: the body of the \<^verbatim>\<open>try\<close> block
  (\<open>checkpointTry\<close>) passes a rejection on, and the \<^verbatim>\<open>catch\<close> block (\<open>checkpointEnd\<close>)
  takes it.  The \<^verbatim>\<open>catch\<close> block builds its log line from \<^verbatim>\<open>error.message\<close>; when that
  throws, nothing is logged and what was thrown leaves \<^verbatim>\<open>checkpoint\<close>.  What the
  handler's promise is fulfilled with is a \<^verbatim>\<open>CheckpointResult\<close>, as its type says.
\<close>

definition continueResult :: CheckpointResult where
  "continueResult = \<lparr> continue = True, newInstructions = None, abort = None, cr_abortReason = None \<rparr>"

definition checkpointBegin :: "Env \<Rightarrow> string \<Rightarrow> TaskContext \<Rightarrow> TaskContext \<times> TaskStatus" where
  "checkpointBegin env reason ctx =
     (let ctx1 = ctx\<lparr> checkpointCount := Suc (checkpointCount ctx) \<rparr>;
          ctx2 = log (''[Checkpoint '' @ showNat (checkpointCount ctx1) @ ''] '' @ reason) ctx1;
          st = (getStatus env ctx2)\<lparr> ts_status := c_paused \<rparr>
      in (ctx2\<lparr> lastCheckpointState := sdkState env \<rparr>, st))"

definition checkpointTry ::
  "CheckpointResult Outcome \<Rightarrow> TaskContext \<Rightarrow> (TaskContext \<times> CheckpointResult) Outcome" where
  "checkpointTry settled ctx =
     (case settled of
        Throws thrown \<Rightarrow> Throws thrown
      | Value result \<Rightarrow>
          if abort result = Some True
          then Value (ctx\<lparr> ctx_status := c_aborted,
                           abortReason := Some (orElse (cr_abortReason result) ''Aborted by supervisor'') \<rparr>,
                      result)
          else if orElse (newInstructions result) [] \<noteq> []
          then Value (log (''[New Instructions] '' @ orElse (newInstructions result) []) ctx, result)
          else Value (ctx, result))"

definition checkpointEnd ::
  "CheckpointResult Outcome \<Rightarrow> TaskContext \<Rightarrow> (TaskContext \<times> CheckpointResult) Outcome" where
  "checkpointEnd settled ctx =
     (case checkpointTry settled ctx of
        Throws thrown \<Rightarrow>
          (case errorMessage thrown of
             Value msg \<Rightarrow> Value (log (''[Checkpoint Error] '' @ msg) ctx, continueResult)
           | Throws thrownAgain \<Rightarrow> Throws thrownAgain)
      | Value r \<Rightarrow> Value r)"

text \<open>
  The whole call, for a handler given by what its promise settles to on the status it is
  passed; \<open>None\<close> is a context with no handler registered.
\<close>

definition checkpoint ::
  "Env \<Rightarrow> string \<Rightarrow> (TaskStatus \<Rightarrow> CheckpointResult Outcome) option \<Rightarrow> TaskContext
     \<Rightarrow> (TaskContext \<times> CheckpointResult) Outcome" where
  "checkpoint env reason handler ctx =
     (let (ctx1, st) = checkpointBegin env reason ctx
      in case handler of
           None \<Rightarrow> Value (ctx1, continueResult)
         | Some h \<Rightarrow> checkpointEnd (h st) ctx1)"

text \<open>
  The operations a task body and its owner can apply to a context, one after another.  A
  \<^verbatim>\<open>checkpoint\<close> that throws leaves the context as it was when the handler was called.
\<close>

datatype ContextOp =
    OpReportProgress ProgressArgs
  | OpSetAction string
  | OpLog string
  | OpWarn string
  | OpCheckpoint string "(TaskStatus \<Rightarrow> CheckpointResult Outcome) option"
  | OpComplete "string option"
  | OpFail string
  | OpCleanup
  | OpStateUpdate

fun applyOp :: "Env \<times> ContextOp \<Rightarrow> TaskContext \<Rightarrow> TaskContext" where
  "applyOp (env, OpReportProgress args) ctx = fst (reportProgress env args ctx)"
| "applyOp (env, OpSetAction a) ctx = fst (setAction env a ctx)"
| "applyOp (env, OpLog msg) ctx = log msg ctx"
| "applyOp (env, OpWarn msg) ctx = warn msg ctx"
| "applyOp (env, OpCheckpoint reason handler) ctx =
     (case checkpoint env reason handler ctx of
        Value (ctx1, r) \<Rightarrow> ctx1
      | Throws thrown \<Rightarrow> fst (checkpointBegin env reason ctx))"
| "applyOp (env, OpComplete result) ctx = fst (complete env result ctx)"
| "applyOp (env, OpFail err) ctx = fst (fail env err ctx)"
| "applyOp (env, OpCleanup) ctx = ctxCleanup ctx"
| "applyOp (env, OpStateUpdate) ctx = fst (onStateUpdate env ctx)"

definition applyOps :: "(Env \<times> ContextOp) list \<Rightarrow> TaskContext \<Rightarrow> TaskContext" where
  "applyOps ops ctx = foldl (\<lambda>c op. applyOp op c) ctx ops"

subsection \<open>An example context\<close>

definition idleContext :: TaskContext where
  "idleContext = newTaskContext \<lparr> now = 1000, sdkState = None, formatted = [] \<rparr> ''task-1-rs'' False True None"


section \<open>The task manager\<close>

datatype TaskState = running | paused | awaiting_feedback | completed | failed | aborted

text \<open>
  A task body is an opaque asynchronous procedure that calls back into its context.  The
  bodies considered here are straight-line scripts of such calls; a body that reaches the
  end of its script returns.  \<open>CheckpointNoAwait\<close> is a call of \<^verbatim>\<open>ctx.checkpoint\<close> whose
  promise the body does not await.  \<open>Throw msg\<close> is \<^verbatim>\<open>throw new Error(msg)\<close>.
  \<open>AwaitAction\<close> is an \<^verbatim>\<open>await\<close> of anything but a checkpoint (an action of the SDK, a
  timer): the body is suspended with its task still \<open>running\<close>, and the rest of its script
  runs when that promise settles.
\<close>

datatype Instr =
    Checkpoint string
  | CheckpointNoAwait string
  | SetAction string
  | ReportProgress ProgressArgs
  | Log string
  | ReturnIfAborted
  | Throw string
  | AwaitAction

text \<open>
  The \<^verbatim>\<open>resolve\<close> handle of a pending checkpoint stands for what runs once the promise
  is settled: the rest of \<^verbatim>\<open>checkpoint\<close> and then either the rest of the body that awaits
  it (\<open>ResumeBody\<close>) or nothing more (\<open>FinishCall\<close>).  The \<^verbatim>\<open>reject\<close> handle is stored
  beside it and never called.
\<close>

datatype Resolver = ResumeBody "Instr list" | FinishCall

record PendingCheckpoint =
  reason :: string
  pc_status :: TaskStatus
  resolve :: Resolver

record RunningTask =
  task_id :: string
  botName :: string
  task_context :: TaskContext
  startTime :: int
  code :: "Instr list"
  description :: string
  status :: TaskState
  lastUpdate :: int
  pendingCheckpoint :: "PendingCheckpoint option"
  progressHistory :: "TaskProgress list"
  task_logs :: "string list"

text \<open>The \<^verbatim>\<open>Map\<close> of tasks, in insertion order, and the counter of generated ids.\<close>

record TaskManager =
  tasks :: "(string \<times> RunningTask) list"
  taskCounter :: nat

definition newTaskManager :: TaskManager where
  "newTaskManager = \<lparr> tasks = [], taskCounter = 0 \<rparr>"

definition base36Char :: "nat \<Rightarrow> char" where
  "base36Char d = ''0123456789abcdefghijklmnopqrstuvwxyz'' ! d"

fun showBase36 :: "nat \<Rightarrow> string" where
  "showBase36 n = (if n < 36 then [base36Char n] else showBase36 (n div 36) @ [base36Char (n mod 36)])"

declare showBase36.simps [simp del]

definition generateTaskId :: "Env \<Rightarrow> TaskManager \<Rightarrow> string \<times> TaskManager" where
  "generateTaskId env m =
     (''task-'' @ showNat (Suc (taskCounter m)) @ ''-'' @ showBase36 (nat (now env)),
      m\<lparr> taskCounter := Suc (taskCounter m) \<rparr>)"

text \<open>
  The \<^verbatim>\<open>onProgress\<close> callback that \<^verbatim>\<open>startTask\<close> registers, and a context operation
  applied to the context of a task with the reports it emits delivered to that callback.
\<close>

definition onProgressCallback :: "Env \<Rightarrow> RunningTask \<Rightarrow> TaskProgress \<Rightarrow> RunningTask" where
  "onProgressCallback env task p =
     task\<lparr> progressHistory := progressHistory task @ [p], lastUpdate := now env \<rparr>"

definition inContext ::
  "Env \<Rightarrow> (TaskContext \<Rightarrow> TaskContext \<times> TaskProgress list) \<Rightarrow> RunningTask \<Rightarrow> RunningTask" where
  "inContext env f task =
     (let (ctx1, emitted) = f (task_context task)
      in foldl (onProgressCallback env) (task\<lparr> task_context := ctx1 \<rparr>) emitted)"

definition updateTask :: "string \<Rightarrow> (RunningTask \<Rightarrow> RunningTask) \<Rightarrow> TaskManager \<Rightarrow> TaskManager" where
  "updateTask tid f m =
     (case map_of (tasks m) tid of
        None \<Rightarrow> m
      | Some task \<Rightarrow> m\<lparr> tasks := AList.update tid (f task) (tasks m) \<rparr>)"

definition startTask ::
  "Env \<Rightarrow> string \<Rightarrow> Instr list \<Rightarrow> string \<Rightarrow> int option \<Rightarrow> TaskManager
     \<Rightarrow> string \<times> TaskStatus \<times> TaskManager" where
  "startTask env bname body descr checkpointInterval m =
     (let (tid, m1) = generateTaskId env m;
          ctx = newTaskContext env tid True True
                  (Some (case checkpointInterval of None \<Rightarrow> 5000 | Some i \<Rightarrow> i));
          task = \<lparr> task_id = tid, botName = bname, task_context = ctx, startTime = now env,
                   code = body, description = descr, status = running, lastUpdate = now env,
                   pendingCheckpoint = None, progressHistory = [], task_logs = [] \<rparr>
      in (tid, getStatus env ctx, m1\<lparr> tasks := AList.update tid task (tasks m1) \<rparr>))"

text \<open>
  \<^verbatim>\<open>handleCheckpoint\<close> answers at once for an unknown task; otherwise it stores the pending
  record and its promise stays open (\<open>None\<close>).
\<close>

definition handleCheckpoint ::
  "Env \<Rightarrow> string \<Rightarrow> TaskStatus \<Rightarrow> Resolver \<Rightarrow> TaskManager \<Rightarrow> CheckpointResult option \<times> TaskManager" where
  "handleCheckpoint env tid st k m =
     (case map_of (tasks m) tid of
        None \<Rightarrow>
          (Some \<lparr> continue = False, newInstructions = None, abort = Some True,
                  cr_abortReason = Some ''Task not found'' \<rparr>, m)
      | Some task \<Rightarrow>
          (None,
           m\<lparr> tasks := AList.update tid
                 (task\<lparr> status := awaiting_feedback,
                        lastUpdate := now env,
                        pendingCheckpoint := Some \<lparr> reason = ts_currentAction st, pc_status = st,
                                                    resolve = k \<rparr> \<rparr>)
                 (tasks m) \<rparr>))"

text \<open>
  \<^verbatim>\<open>continueTask\<close> and \<^verbatim>\<open>abortTask\<close> return their outcome, the manager as they leave it,
  and the promise they resolved with its result, if any.
\<close>

definition continueTask ::
  "Env \<Rightarrow> string \<Rightarrow> string option \<Rightarrow> TaskManager
     \<Rightarrow> CheckpointResult Outcome \<times> TaskManager \<times> (Resolver \<times> CheckpointResult) option" where
  "continueTask env tid instructions m =
     (case map_of (tasks m) tid of
        None \<Rightarrow> (Throws (ErrorObject (''Task '' @ tid @ '' not found'')), m, None)
      | Some task \<Rightarrow>
         (case pendingCheckpoint task of
            None \<Rightarrow> (Throws (ErrorObject (''Task '' @ tid @ '' is not paused at a checkpoint'')), m, None)
          | Some p \<Rightarrow>
              (let result = \<lparr> continue = True, newInstructions = instructions, abort = None,
                              cr_abortReason = None \<rparr>
               in (Value result,
                   m\<lparr> tasks := AList.update tid
                         (task\<lparr> pendingCheckpoint := None, status := running, lastUpdate := now env \<rparr>)
                         (tasks m) \<rparr>,
                   Some (resolve p, result)))))"

definition abortTask ::
  "Env \<Rightarrow> string \<Rightarrow> string option \<Rightarrow> TaskManager
     \<Rightarrow> unit Outcome \<times> TaskManager \<times> (Resolver \<times> CheckpointResult) option" where
  "abortTask env tid why m =
     (case map_of (tasks m) tid of
        None \<Rightarrow> (Throws (ErrorObject (''Task '' @ tid @ '' not found'')), m, None)
      | Some task \<Rightarrow>
          (let task1 = task\<lparr> status := aborted, lastUpdate := now env \<rparr>;
               (task2, resolved) =
                 (case pendingCheckpoint task1 of
                    Some p \<Rightarrow>
                      (task1\<lparr> pendingCheckpoint := None \<rparr>,
                       Some (resolve p,
                             \<lparr> continue = False, newInstructions = None, abort = Some True,
                               cr_abortReason = Some (orElse why ''Task aborted by user'') \<rparr>))
                  | None \<Rightarrow> (task1, None));
               task3 = task2\<lparr> task_context := ctxCleanup (task_context task2) \<rparr>
           in (Value (), m\<lparr> tasks := AList.update tid task3 (tasks m) \<rparr>, resolved)))"

definition getTaskStatus :: "TaskManager \<Rightarrow> string \<Rightarrow> RunningTask option" where
  "getTaskStatus m tid = map_of (tasks m) tid"

definition completeTask :: "Env \<Rightarrow> string \<Rightarrow> string option \<Rightarrow> TaskManager \<Rightarrow> TaskManager" where
  "completeTask env tid result m =
     updateTask tid
       (\<lambda>task.
          (let task1 = task\<lparr> status := completed, lastUpdate := now env \<rparr>;
               task2 = inContext env (complete env result) task1
           in task2\<lparr> task_context := ctxCleanup (task_context task2) \<rparr>))
       m"

definition failTask :: "Env \<Rightarrow> string \<Rightarrow> string \<Rightarrow> TaskManager \<Rightarrow> TaskManager" where
  "failTask env tid err m =
     updateTask tid
       (\<lambda>task.
          (let task1 = task\<lparr> status := failed, lastUpdate := now env \<rparr>;
               task2 = inContext env (fail env err) task1
           in task2\<lparr> task_context := ctxCleanup (task_context task2) \<rparr>))
       m"

text \<open>
  \<^verbatim>\<open>cleanup\<close> walks the entries of the map and deletes, by its key, each entry that is
  old enough and neither running nor awaiting feedback.
\<close>

definition evictable :: "int \<Rightarrow> int \<Rightarrow> RunningTask \<Rightarrow> bool" where
  "evictable nw maxAgeMs task =
     (nw - lastUpdate task > maxAgeMs \<and> status task \<noteq> running \<and> status task \<noteq> awaiting_feedback)"

fun cleanupLoop ::
  "int \<Rightarrow> int \<Rightarrow> (string \<times> RunningTask) list \<Rightarrow> (string \<times> RunningTask) list \<times> nat
     \<Rightarrow> (string \<times> RunningTask) list \<times> nat" where
  "cleanupLoop nw maxAgeMs [] acc = acc"
| "cleanupLoop nw maxAgeMs ((tid, task) # rest) (ts, cleaned) =
     cleanupLoop nw maxAgeMs rest
       (if evictable nw maxAgeMs task then (AList.delete tid ts, Suc cleaned) else (ts, cleaned))"

definition cleanup :: "Env \<Rightarrow> int option \<Rightarrow> TaskManager \<Rightarrow> nat \<times> TaskManager" where
  "cleanup env maxAge m =
     (let maxAgeMs = (case maxAge of None \<Rightarrow> 30 * 60 * 1000 | Some a \<Rightarrow> a);
          (ts, cleaned) = cleanupLoop (now env) maxAgeMs (tasks m) (tasks m, 0)
      in (cleaned, m\<lparr> tasks := ts \<rparr>))"

section \<open>Running a task body\<close>

text \<open>
  The \<^verbatim>\<open>run_task\<close> tool starts the task and invokes its body once; when the body returns
  it calls \<^verbatim>\<open>completeTask\<close>, and when the body throws it calls \<^verbatim>\<open>failTask\<close> unless the task
  is awaiting feedback.  The body runs until it awaits a promise that is still open: at a
  checkpoint the rest of the script is kept in the pending record, at any other
  \<^verbatim>\<open>await\<close> it is kept by the event loop, and \<open>runBody\<close> is called on it again when the
  promise settles.  A body whose task is no longer in the map works on objects the manager
  does not reach, and the manager stays as it is.
\<close>

definition afterCheckpoint :: "CheckpointResult \<Rightarrow> TaskContext \<Rightarrow> TaskContext" where
  "afterCheckpoint r ctx =
     (case checkpointEnd (Value r) ctx of Value (ctx1, r1) \<Rightarrow> ctx1 | Throws thrown \<Rightarrow> ctx)"

fun runBody :: "Env \<Rightarrow> string \<Rightarrow> Instr list \<Rightarrow> TaskManager \<Rightarrow> TaskManager" where
  "runBody env tid [] m = completeTask env tid None m"
| "runBody env tid (Throw msg # rest) m =
     (case map_of (tasks m) tid of
        None \<Rightarrow> m
      | Some task \<Rightarrow> if status task = awaiting_feedback then m else failTask env tid msg m)"
| "runBody env tid (ReturnIfAborted # rest) m =
     (case map_of (tasks m) tid of
        None \<Rightarrow> m
      | Some task \<Rightarrow>
          if shouldContinue (task_context task) then runBody env tid rest m
          else completeTask env tid None m)"
| "runBody env tid (SetAction a # rest) m =
     runBody env tid rest (updateTask tid (inContext env (setAction env a)) m)"
| "runBody env tid (ReportProgress args # rest) m =
     runBody env tid rest (updateTask tid (inContext env (reportProgress env args)) m)"
| "runBody env tid (Log msg # rest) m =
     runBody env tid rest (updateTask tid (\<lambda>task. task\<lparr> task_context := log msg (task_context task) \<rparr>) m)"
| "runBody env tid (Checkpoint why # rest) m =
     (case map_of (tasks m) tid of
        None \<Rightarrow> m
      | Some task \<Rightarrow>
          (let (ctx1, st) = checkpointBegin env why (task_context task);
               m1 = m\<lparr> tasks := AList.update tid (task\<lparr> task_context := ctx1 \<rparr>) (tasks m) \<rparr>
           in if onCheckpoint ctx1
              then (case handleCheckpoint env tid st (ResumeBody rest) m1 of
                      (None, m2) \<Rightarrow> m2
                    | (Some r, m2) \<Rightarrow>
                        runBody env tid rest
                          (updateTask tid (\<lambda>t. t\<lparr> task_context := afterCheckpoint r (task_context t) \<rparr>) m2))
              else runBody env tid rest m1))"
| "runBody env tid (CheckpointNoAwait why # rest) m =
     (case map_of (tasks m) tid of
        None \<Rightarrow> m
      | Some task \<Rightarrow>
          (let (ctx1, st) = checkpointBegin env why (task_context task);
               m1 = m\<lparr> tasks := AList.update tid (task\<lparr> task_context := ctx1 \<rparr>) (tasks m) \<rparr>
           in if onCheckpoint ctx1
              then (case handleCheckpoint env tid st FinishCall m1 of
                      (None, m2) \<Rightarrow> runBody env tid rest m2
                    | (Some r, m2) \<Rightarrow>
                        runBody env tid rest
                          (updateTask tid (\<lambda>t. t\<lparr> task_context := afterCheckpoint r (task_context t) \<rparr>) m2))
              else runBody env tid rest m1))"
| "runBody env tid (AwaitAction # rest) m = m"

text \<open>What runs when a pending checkpoint has been resolved with a result.\<close>

definition runResolved ::
  "Env \<Rightarrow> string \<Rightarrow> (Resolver \<times> CheckpointResult) option \<Rightarrow> TaskManager \<Rightarrow> TaskManager" where
  "runResolved env tid resolved m =
     (case resolved of
        None \<Rightarrow> m
      | Some (k, r) \<Rightarrow>
          (let m1 = updateTask tid (\<lambda>t. t\<lparr> task_context := afterCheckpoint r (task_context t) \<rparr>) m
           in case k of ResumeBody rest \<Rightarrow> runBody env tid rest m1 | FinishCall \<Rightarrow> m1))"

definition runTask ::
  "Env \<Rightarrow> string \<Rightarrow> Instr list \<Rightarrow> string \<Rightarrow> TaskManager \<Rightarrow> string \<times> TaskManager" where
  "runTask env bname body descr m =
     (let (tid, st, m1) = startTask env bname body descr None m
      in (tid, runBody env tid body m1))"

definition continueTaskAndRun ::
  "Env \<Rightarrow> string \<Rightarrow> string option \<Rightarrow> TaskManager \<Rightarrow> CheckpointResult Outcome \<times> TaskManager" where
  "continueTaskAndRun env tid instructions m =
     (let (out, m1, resolved) = continueTask env tid instructions m
      in (out, runResolved env tid resolved m1))"

definition abortTaskAndRun ::
  "Env \<Rightarrow> string \<Rightarrow> string option \<Rightarrow> TaskManager \<Rightarrow> unit Outcome \<times> TaskManager" where
  "abortTaskAndRun env tid why m =
     (let (out, m1, resolved) = abortTask env tid why m
      in (out, runResolved env tid resolved m1))"

text \<open>What a controller observes of a task.\<close>

definition taskStatus :: "TaskManager \<Rightarrow> string \<Rightarrow> TaskState option" where
  "taskStatus m tid = map_option status (map_of (tasks m) tid)"

definition pendingReason :: "TaskManager \<Rightarrow> string \<Rightarrow> string option" where
  "pendingReason m tid =
     (case map_of (tasks m) tid of
        None \<Rightarrow> None
      | Some task \<Rightarrow> map_option reason (pendingCheckpoint task))"

definition reportedStatuses :: "TaskManager \<Rightarrow> string \<Rightarrow> ProgressStatus list" where
  "reportedStatuses m tid =
     (case map_of (tasks m) tid of
        None \<Rightarrow> []
      | Some task \<Rightarrow> map tp_status (progressHistory task))"

definition taskLogs :: "TaskManager \<Rightarrow> string \<Rightarrow> string list" where
  "taskLogs m tid =
     (case map_of (tasks m) tid of
        None \<Rightarrow> []
      | Some task \<Rightarrow> getLogs (task_context task))"

subsection \<open>Example runs\<close>

definition envAt :: "int \<Rightarrow> Env" where
  "envAt t = \<lparr> now = t, sdkState = None, formatted = [] \<rparr>"

text \<open>
  Three tasks: one that returned at once at time 0, one that has been waiting at a
  checkpoint since time 0, and one that returned at time 1000000.
\<close>

definition threeTasks :: TaskManager where
  "threeTasks =
     snd (runTask (envAt 1000000) ''bot'' [] ''recent''
       (snd (runTask (envAt 0) ''bot'' [Checkpoint ''A''] ''waiting''
         (snd (runTask (envAt 0) ''bot'' [] ''done'' newTaskManager)))))"


text \<open>A task whose body is waiting for an action of the SDK, before its first checkpoint.\<close>

definition busyTask :: TaskManager where
  "busyTask =
     snd (runTask (envAt 1000) ''bot'' [AwaitAction, Checkpoint ''A''] ''chopping'' newTaskManager)"

section \<open>The states a manager can be in\<close>

text \<open>
  A manager starts empty and changes through the operations of the \<^verbatim>\<open>TaskManager\<close> class,
  the task bodies, and the state updates the SDK delivers to the contexts.  A body, or the
  rest of a body that was suspended at an \<^verbatim>\<open>await\<close>, may run at any moment, on the task
  whose context it holds (\<open>proceed\<close>); the rest of a body suspended at a checkpoint runs
  when \<^verbatim>\<open>continueTask\<close> or \<^verbatim>\<open>abortTask\<close> resolves the pending promise (\<open>resume\<close>,
  \<open>stop\<close>).  The relation admits every interleaving of the event loop and more (any
  script may run on any task), so what holds of every reachable manager holds of every
  manager the code produces.
\<close>

inductive reachable :: "TaskManager \<Rightarrow> bool" where
  init: "reachable newTaskManager"
| start: "reachable m \<Longrightarrow> reachable (snd (snd (startTask env bname body descr interval m)))"
| proceed: "reachable m \<Longrightarrow> reachable (runBody env tid body m)"
| resume: "reachable m \<Longrightarrow> reachable (snd (continueTaskAndRun env tid instructions m))"
| stop: "reachable m \<Longrightarrow> reachable (snd (abortTaskAndRun env tid why m))"
| finish: "reachable m \<Longrightarrow> reachable (completeTask env tid result m)"
| break: "reachable m \<Longrightarrow> reachable (failTask env tid err m)"
| clean: "reachable m \<Longrightarrow> reachable (snd (cleanup env maxAge m))"
| update: "reachable m \<Longrightarrow> reachable (updateTask tid (inContext env (onStateUpdate env)) m)"

text \<open>
  The status of a task and its pending-checkpoint record agree when a running task has no
  record and a task awaiting feedback has one.
\<close>

definition consistent :: "RunningTask \<Rightarrow> bool" where
  "consistent task =
     ((status task = running \<longrightarrow> pendingCheckpoint task = None)
      \<and> (status task = awaiting_feedback \<longrightarrow> pendingCheckpoint task \<noteq> None))"

definition tableOK :: "TaskManager \<Rightarrow> bool" where
  "tableOK m = (distinct (map fst (tasks m)) \<and> (\<forall>e \<in> set (tasks m). consistent (snd e)))"

section \<open>Properties of the diff\<close>

subsection \<open>Each step changes only its own fields\<close>

lemma findGained_frame [simp]:
  "diff_tick (findGained b a d) = diff_tick d"
  "diff_skills (findGained b a d) = diff_skills d"
  "combat (findGained b a d) = combat d"
  "position (findGained b a d) = position d"
  "ui (findGained b a d) = ui d"
  "npcs (findGained b a d) = npcs d"
  "messages (findGained b a d) = messages d"
  by (induction b a d rule: findGained.induct; simp split: option.splits)+

lemma findLost_frame [simp]:
  "diff_tick (findLost b a d) = diff_tick d"
  "diff_skills (findLost b a d) = diff_skills d"
  "combat (findLost b a d) = combat d"
  "position (findLost b a d) = position d"
  "ui (findLost b a d) = ui d"
  "npcs (findLost b a d) = npcs d"
  "messages (findLost b a d) = messages d"
  by (induction b a d rule: findLost.induct; simp split: option.splits)+

lemma skillChanges_frame [simp]:
  "diff_tick (skillChanges b a d) = diff_tick d"
  "diff_inventory (skillChanges b a d) = diff_inventory d"
  "combat (skillChanges b a d) = combat d"
  "position (skillChanges b a d) = position d"
  "ui (skillChanges b a d) = ui d"
  "npcs (skillChanges b a d) = npcs d"
  "messages (skillChanges b a d) = messages d"
  by (induction b a d rule: skillChanges.induct; simp split: option.splits add: Let_def)+

lemma combatLoop_frame [simp]:
  "diff_tick (combatLoop evs d) = diff_tick d"
  "diff_inventory (combatLoop evs d) = diff_inventory d"
  "diff_skills (combatLoop evs d) = diff_skills d"
  "position (combatLoop evs d) = position d"
  "ui (combatLoop evs d) = ui d"
  "npcs (combatLoop evs d) = npcs d"
  "messages (combatLoop evs d) = messages d"
  "summary (combatLoop evs d) = summary d"
  by (induction evs d rule: combatLoop.induct; simp)+

lemma distinct_groupInventory:
  "distinct (map fst m) \<Longrightarrow> distinct (map fst (groupInventory items m))"
  by (induction items m rule: groupInventory.induct) (simp_all add: distinct_update split: option.splits)

lemma findGained_same:
  "distinct (map fst b) \<Longrightarrow> set a \<subseteq> set b \<Longrightarrow> findGained b a d = d"
  by (induction b a d rule: findGained.induct) auto

lemma findLost_same:
  "distinct (map fst a) \<Longrightarrow> set b \<subseteq> set a \<Longrightarrow> findLost a b d = d"
  by (induction a b d rule: findLost.induct) auto

lemma skillMap_other:
  "n \<notin> skill_name ` set ss \<Longrightarrow> map_of (skillMap ss m) n = map_of m n"
  by (induction ss m rule: skillMap.induct) (auto simp: update_conv')

lemma skillMap_distinct:
  "distinct (map skill_name ss) \<Longrightarrow> s \<in> set ss \<Longrightarrow> map_of (skillMap ss m) (skill_name s) = Some s"
  by (induction ss m rule: skillMap.induct) (auto simp: update_conv' skillMap_other)

lemma skillChanges_same:
  "\<forall>s \<in> set a. \<forall>b. map_of bm (skill_name s) = Some b \<longrightarrow> experience s \<le> experience b
     \<Longrightarrow> skillChanges bm a d = d"
  by (induction bm a d rule: skillChanges.induct) (auto split: option.splits)

lemma npcMap_keys: "fst ` set (npcMap l m) = fst ` set m \<union> npc_index ` set l"
  by (induction l m rule: npcMap.induct) (auto simp: dom_update)

lemma appearedLoop_none:
  "\<forall>npc \<in> set l. map_of b (npc_index npc) \<noteq> None \<Longrightarrow> appearedLoop b l (m, d) = (npcMap l m, d)"
  by (induction l arbitrary: m d) auto

lemma disappearedLoop_none:
  "\<forall>k \<in> fst ` set b. map_of a k \<noteq> None \<Longrightarrow> disappearedLoop a b d = d"
  by (induction a b d rule: disappearedLoop.induct) auto

lemma computeStateDiff_same:
  assumes sk: "distinct (map skill_name (skills S))"
    and ev: "\<forall>evs. combatEvents S = Some evs \<longrightarrow> (\<forall>e \<in> set evs. ev_tick e \<le> tick S)"
    and ms: "\<forall>msgs. gameMessages S = Some msgs \<longrightarrow> (\<forall>m \<in> set msgs. msg_tick m \<le> tick S)"
  shows "computeStateDiff S S = createEmptyDiff (tick S)"
proof -
  let ?inv = "groupInventory (inventory S) []"
  let ?d0 = "createEmptyDiff (tick S)"
  have d0: "?d0\<lparr> diff_tick := \<lparr> tick_before = tick S, tick_after = tick S, elapsed = tick S - tick S \<rparr> \<rparr> = ?d0"
    by (simp add: createEmptyDiff_def)
  have dist: "distinct (map fst ?inv)" by (rule distinct_groupInventory) simp
  have g: "findGained ?inv ?inv ?d0 = ?d0" by (rule findGained_same [OF dist]) simp
  have l: "findLost ?inv ?inv ?d0 = ?d0" by (rule findLost_same [OF dist]) simp
  have s: "skillChanges (skillMap (skills S) []) (skills S) ?d0 = ?d0"
    by (rule skillChanges_same) (simp add: skillMap_distinct [OF sk])
  have h: "?d0\<lparr> combat := (combat ?d0)\<lparr> healthChange := hitpoints S - hitpoints S \<rparr> \<rparr> = ?d0"
    by (simp add: createEmptyDiff_def)
  have filt: "\<And>evs. combatEvents S = Some evs \<Longrightarrow> filter (\<lambda>e. ev_tick e > tick S) evs = []"
    using ev by (auto simp: filter_empty_conv)
  have c: "combatEventsStep S S ?d0 = ?d0"
    by (simp add: combatEventsStep_def filt split: option.splits)
  have cs: "combatSummary ?d0 = ?d0"
    by (simp add: combatSummary_def createEmptyDiff_def)
  have p: "positionStep S S ?d0 = ?d0"
    by (simp add: positionStep_def distSquared_def toDouble_def toDoubleNat_def mathSqrt_def
          split: option.splits)
  have u: "uiStep S S ?d0 = ?d0"
    by (simp add: uiStep_def createEmptyDiff_def)
  let ?nm = "npcMap (nearbyNpcs S) []"
  have keys: "\<And>k. map_of ?nm k \<noteq> None \<longleftrightarrow> k \<in> npc_index ` set (nearbyNpcs S)"
    by (simp add: map_of_eq_None_iff npcMap_keys)
  have a: "appearedLoop ?nm (nearbyNpcs S) ([], ?d0) = (?nm, ?d0)"
    by (rule appearedLoop_none) (use keys in blast)
  have dl: "disappearedLoop ?nm ?nm ?d0 = ?d0"
    by (rule disappearedLoop_none) (use keys npcMap_keys [of "nearbyNpcs S" "[]"] in auto)
  have mfilt: "\<And>msgs. gameMessages S = Some msgs \<Longrightarrow> filter (\<lambda>m. msg_tick m > tick S) msgs = []"
    using ms by (auto simp: filter_empty_conv)
  have m: "messagesStep S S ?d0 = ?d0"
    by (simp add: messagesStep_def mfilt createEmptyDiff_def split: option.splits)
  show ?thesis
    unfolding computeStateDiff_def Let_def d0 g l s h c cs p u a
    by (simp add: dl m)
qed

lemma combatEventsStep_frame [simp]:
  "diff_tick (combatEventsStep b a d) = diff_tick d"
  "diff_inventory (combatEventsStep b a d) = diff_inventory d"
  "diff_skills (combatEventsStep b a d) = diff_skills d"
  "position (combatEventsStep b a d) = position d"
  "ui (combatEventsStep b a d) = ui d"
  "npcs (combatEventsStep b a d) = npcs d"
  "messages (combatEventsStep b a d) = messages d"
  "summary (combatEventsStep b a d) = summary d"
  by (simp_all add: combatEventsStep_def split: option.splits)

lemma combatSummary_frame [simp]:
  "diff_tick (combatSummary d) = diff_tick d"
  "diff_inventory (combatSummary d) = diff_inventory d"
  "diff_skills (combatSummary d) = diff_skills d"
  "combat (combatSummary d) = combat d"
  "position (combatSummary d) = position d"
  "ui (combatSummary d) = ui d"
  "npcs (combatSummary d) = npcs d"
  "messages (combatSummary d) = messages d"
  by (simp_all add: combatSummary_def Let_def)

lemma positionStep_frame [simp]:
  "diff_tick (positionStep b a d) = diff_tick d"
  "diff_inventory (positionStep b a d) = diff_inventory d"
  "diff_skills (positionStep b a d) = diff_skills d"
  "combat (positionStep b a d) = combat d"
  "ui (positionStep b a d) = ui d"
  "npcs (positionStep b a d) = npcs d"
  "messages (positionStep b a d) = messages d"
  by (simp_all add: positionStep_def Let_def split: option.splits)

lemma uiStep_frame [simp]:
  "diff_tick (uiStep b a d) = diff_tick d"
  "diff_inventory (uiStep b a d) = diff_inventory d"
  "diff_skills (uiStep b a d) = diff_skills d"
  "combat (uiStep b a d) = combat d"
  "position (uiStep b a d) = position d"
  "npcs (uiStep b a d) = npcs d"
  "messages (uiStep b a d) = messages d"
  by (simp_all add: uiStep_def Let_def)

lemma appearedLoop_frame [simp]:
  "diff_tick (snd (appearedLoop b l acc)) = diff_tick (snd acc)"
  "diff_inventory (snd (appearedLoop b l acc)) = diff_inventory (snd acc)"
  "diff_skills (snd (appearedLoop b l acc)) = diff_skills (snd acc)"
  "combat (snd (appearedLoop b l acc)) = combat (snd acc)"
  "position (snd (appearedLoop b l acc)) = position (snd acc)"
  "ui (snd (appearedLoop b l acc)) = ui (snd acc)"
  "messages (snd (appearedLoop b l acc)) = messages (snd acc)"
  "summary (snd (appearedLoop b l acc)) = summary (snd acc)"
  by (induction b l acc rule: appearedLoop.induct; simp)+

lemma disappearedLoop_frame [simp]:
  "diff_tick (disappearedLoop a b d) = diff_tick d"
  "diff_inventory (disappearedLoop a b d) = diff_inventory d"
  "diff_skills (disappearedLoop a b d) = diff_skills d"
  "combat (disappearedLoop a b d) = combat d"
  "position (disappearedLoop a b d) = position d"
  "ui (disappearedLoop a b d) = ui d"
  "messages (disappearedLoop a b d) = messages d"
  by (induction a b d rule: disappearedLoop.induct; simp add: Let_def)+

lemma messagesStep_frame [simp]:
  "diff_tick (messagesStep b a d) = diff_tick d"
  "diff_inventory (messagesStep b a d) = diff_inventory d"
  "diff_skills (messagesStep b a d) = diff_skills d"
  "combat (messagesStep b a d) = combat d"
  "position (messagesStep b a d) = position d"
  "ui (messagesStep b a d) = ui d"
  "npcs (messagesStep b a d) = npcs d"
  "summary (messagesStep b a d) = summary d"
  by (simp_all add: messagesStep_def split: option.splits)

lemma skillChanges_xpGained:
  "xpGained (diff_skills (skillChanges bm a d)) =
     xpGained (diff_skills d) @ List.map_filter (xpEntry bm) a"
  by (induction bm a d rule: skillChanges.induct)
     (simp_all add: List.map_filter_simps xpEntry_def Let_def split: option.splits)

lemma computeStateDiff_xpGained:
  "xpGained (diff_skills (computeStateDiff before after)) =
     List.map_filter (xpEntry (skillMap (skills before) [])) (skills after)"
  by (simp add: computeStateDiff_def Let_def split_beta skillChanges_xpGained createEmptyDiff_def)


subsection \<open>The double square root and its rounding\<close>

lemma floorSqrt_bounds:
  "floorSqrt n * floorSqrt n \<le> n \<and> n < (floorSqrt n + 1) * (floorSqrt n + 1)"
proof (induction n rule: floorSqrt.induct)
  case (1 n)
  show ?case
  proof (cases "n = 0")
    case True
    then show ?thesis by (simp add: floorSqrt.simps)
  next
    case False
    define a where "a = floorSqrt (n div 4)"
    from 1 [OF False] have ih: "a * a \<le> n div 4" "n div 4 < (a + 1) * (a + 1)"
      by (simp_all add: a_def)
    have d: "n div 4 * 4 \<le> n" "n < n div 4 * 4 + 4" by simp_all
    have lo: "4 * (a * a) \<le> n" using ih(1) d(1) by linarith
    have "(a + 1) * (a + 1) = a * a + 2 * a + 1" by (simp add: algebra_simps)
    with ih(2) have "n div 4 < a * a + 2 * a + 1" by simp
    with d(2) have hi: "n < 4 * (a * a) + 8 * a + 4" by linarith
    have fs: "floorSqrt n = (if (2 * a + 1) * (2 * a + 1) \<le> n then 2 * a + 1 else 2 * a)"
      using False by (subst floorSqrt.simps) (simp add: a_def Let_def)
    have e1: "(2 * a + 1) * (2 * a + 1) = 4 * (a * a) + 4 * a + 1" by (simp add: algebra_simps)
    have e2: "(2 * a + 1 + 1) * (2 * a + 1 + 1) = 4 * (a * a) + 8 * a + 4" by (simp add: algebra_simps)
    have e3: "(2 * a) * (2 * a) = 4 * (a * a)" by simp
    show ?thesis
    proof (cases "(2 * a + 1) * (2 * a + 1) \<le> n")
      case True
      then show ?thesis using hi unfolding fs by (simp only: if_True e2)
    next
      case c: False
      then have "n < (2 * a + 1) * (2 * a + 1)" by simp
      then show ?thesis using lo c unfolding fs by (simp only: if_False e3)
    qed
  qed
qed

lemma floorSqrt_le: "floorSqrt n * floorSqrt n \<le> n"
  using floorSqrt_bounds [of n] by simp

lemma floorSqrt_gt: "n < (floorSqrt n + 1) * (floorSqrt n + 1)"
  using floorSqrt_bounds [of n] by simp

lemma roundSqrt_round: "int (roundSqrt m) = round (sqrt (real m))"
proof -
  define r where "r = floorSqrt m"
  have le: "real (r * r) \<le> real m"
    unfolding r_def using floorSqrt_le [of m] by (simp only: of_nat_le_iff)
  have gt: "real m < real ((r + 1) * (r + 1))"
    unfolding r_def using floorSqrt_gt [of m] by (simp only: of_nat_less_iff)
  have sq: "(real r)\<^sup>2 = real (r * r)"
    by (simp add: power2_eq_square)
  have sq1: "(real r + 1)\<^sup>2 = real ((r + 1) * (r + 1))"
    by (simp add: power2_eq_square algebra_simps)
  have half: "(real r + 1/2)\<^sup>2 = real (r * r + r) + 1/4"
    by (simp add: power2_eq_square algebra_simps)
  have lo: "real r \<le> sqrt (real m)"
    by (rule real_le_rsqrt) (simp only: sq le)
  have hi: "sqrt (real m) < real r + 1"
  proof (rule real_less_lsqrt)
    show "0 \<le> real r + 1" by simp
    show "real m < (real r + 1)\<^sup>2" by (simp only: sq1 gt)
  qed
  show ?thesis
  proof (cases "m > r * r + r")
    case True
    then have "r * r + r + 1 \<le> m" by simp
    then have "real (r * r + r + 1) \<le> real m" by (simp only: of_nat_le_iff)
    then have "real (r * r + r) + 1 \<le> real m" by simp
    then have "(real r + 1/2)\<^sup>2 \<le> real m" unfolding half by linarith
    then have "real r + 1/2 \<le> sqrt (real m)" by (rule real_le_rsqrt)
    then have "round (sqrt (real m)) = int r + 1"
      using hi by (intro round_unique) simp_all
    with True show ?thesis by (simp add: roundSqrt_def Let_def r_def)
  next
    case False
    then have "m \<le> r * r + r" by simp
    then have "real m \<le> real (r * r + r)" by (simp only: of_nat_le_iff)
    then have "real m < (real r + 1/2)\<^sup>2" unfolding half by linarith
    then have "sqrt (real m) < real r + 1/2" by (intro real_less_lsqrt) simp_all
    then have "round (sqrt (real m)) = int r"
      using lo by (intro round_unique) simp_all
    with False show ?thesis by (simp add: roundSqrt_def Let_def r_def)
  qed
qed

lemma log4_le: "0 < n \<Longrightarrow> 4 ^ log4 n \<le> n"
proof (induction n rule: log4.induct)
  case (1 n)
  show ?case
  proof (cases "n < 4")
    case True
    with 1(2) show ?thesis by (simp add: log4.simps)
  next
    case False
    then have "0 < n div 4" by simp
    with 1(1) False have "4 ^ log4 (n div 4) \<le> n div 4" by simp
    then have "4 * 4 ^ log4 (n div 4) \<le> n" by linarith
    with False show ?thesis by (subst log4.simps) simp
  qed
qed

lemma log4_gt: "n < 4 ^ (log4 n + 1)"
proof (induction n rule: log4.induct)
  case (1 n)
  show ?case
  proof (cases "n < 4")
    case True
    then show ?thesis by (simp add: log4.simps)
  next
    case False
    with 1 have "n div 4 < 4 ^ (log4 (n div 4) + 1)" by simp
    then have "n < 4 * 4 ^ (log4 (n div 4) + 1)" by linarith
    with False show ?thesis by (subst log4.simps) simp
  qed
qed

lemma toDouble_exact: "\<bar>i\<bar> < 2 ^ 53 \<Longrightarrow> toDouble i = i"
  by (auto simp add: toDouble_def toDoubleNat_def)

lemma log4_small:
  assumes "0 < n" and "n < 2 ^ 50"
  shows "log4 n \<le> 24"
proof -
  have "(4::nat) ^ log4 n \<le> n" using assms(1) by (rule log4_le)
  also have "n < 4 ^ 25" using assms(2) by simp
  finally have "(4::nat) ^ log4 n < 4 ^ 25" .
  then have "log4 n < 25" by (rule power_less_imp_less_exp [rotated]) simp
  then show ?thesis by simp
qed

lemma sqrt_scaled: "sqrt (real (n * (s * s))) = real s * sqrt (real n)"
  by (simp add: real_sqrt_mult)

lemma mathSqrt_scaled:
  assumes "0 < n" and "log4 n \<le> 52"
  shows "mathSqrt (int n) =
         real_of_int (round (real ((2::nat) ^ (52 - log4 n)) * sqrt (real n))) / real ((2::nat) ^ (52 - log4 n))"
proof -
  define e where "e = log4 n"
  define s :: nat where "s = 2 ^ (52 - e)"
  have e: "e \<le> 52" using assms(2) by (simp add: e_def)
  have four: "(4::nat) ^ (52 - e) = s * s"
  proof -
    have "(4::nat) ^ (52 - e) = (2 * 2) ^ (52 - e)" by simp
    also have "\<dots> = s * s" unfolding s_def by (rule power_mult_distrib)
    finally show ?thesis .
  qed
  have sig: "sqrtSignificand n = roundSqrt (n * (s * s))"
    using e by (simp add: sqrtSignificand_def Let_def e_def [symmetric] four)
  have "real (roundSqrt (n * (s * s))) = real_of_int (int (roundSqrt (n * (s * s))))" by simp
  also have "\<dots> = real_of_int (round (real s * sqrt (real n)))"
    by (simp only: roundSqrt_round sqrt_scaled)
  finally have m: "real (sqrtSignificand n) = real_of_int (round (real s * sqrt (real n)))"
    by (simp only: sig)
  have "(2::real) ^ 52 = 2 ^ (e + (52 - e))" using e by simp
  also have "\<dots> = 2 ^ e * 2 ^ (52 - e)" by (rule power_add)
  finally have p: "(2::real) ^ 52 = 2 ^ e * real s" by (simp add: s_def)
  have "mathSqrt (int n) = real (sqrtSignificand n) * 2 ^ e / 2 ^ 52"
    using assms(1) by (simp add: mathSqrt_def e_def)
  also have "\<dots> = real (sqrtSignificand n) * 2 ^ e / (2 ^ e * real s)" by (simp only: p)
  also have "\<dots> = real (sqrtSignificand n) / real s" by simp
  finally show ?thesis by (simp only: m s_def e_def)
qed

lemma mathRound_scaled:
  fixes n s :: nat
  assumes ev: "even s" and big: "4 * round (sqrt (real n)) + 2 \<le> int s"
  shows "mathRound (real_of_int (round (real s * sqrt (real n))) / real s) = round (sqrt (real n))"
proof -
  define y where "y = sqrt (real n)"
  define R where "R = round y"
  define m where "m = round (real s * y)"
  have y0: "0 \<le> y" by (simp add: y_def)
  have "round (0::real) \<le> round y" using y0 by (rule round_mono)
  then have R0: "0 \<le> R" by (simp add: R_def)
  have big': "4 * R + 2 \<le> int s" using big by (simp add: R_def y_def)
  then have "real_of_int (4 * R + 2) \<le> real_of_int (int s)" by (simp only: of_int_le_iff)
  then have bigr: "4 * real_of_int R + 2 \<le> real s" by simp
  have spos: "0 < real s" using bigr R0 by linarith
  obtain h where h: "s = 2 * h" using ev by (auto elim: evenE)
  have sh: "real s = 2 * real h" by (simp add: h)
  have ylo: "real_of_int R - 1/2 \<le> y"
    using of_int_round_le [of y] by (simp add: R_def)
  have yhi: "y < real_of_int R + 1/2"
    using of_int_round_gt [of y] by (simp add: R_def)
  have "real_of_int (int h * (2 * R - 1)) = real s * (real_of_int R - 1/2)"
    by (simp add: sh algebra_simps)
  also have "\<dots> \<le> real s * y" using ylo spos by simp
  finally have "round (real_of_int (int h * (2 * R - 1))) \<le> round (real s * y)" by (rule round_mono)
  then have "int h * (2 * R - 1) \<le> m" by (simp only: round_of_int m_def)
  then have "real_of_int (int h * (2 * R - 1)) \<le> real_of_int m" by (simp only: of_int_le_iff)
  then have "real s * (real_of_int R - 1/2) \<le> real_of_int m" by (simp add: sh algebra_simps)
  then have "real_of_int R - 1/2 \<le> real_of_int m / real s"
    using spos by (simp add: pos_le_divide_eq mult.commute)
  then have lower: "real_of_int R \<le> real_of_int m / real s + 1/2" by simp
  have ysq: "y\<^sup>2 = real n" by (simp add: y_def)
  have "y\<^sup>2 < (real_of_int R + 1/2)\<^sup>2"
    using y0 yhi by (intro power_strict_mono) simp_all
  also have "(real_of_int R + 1/2)\<^sup>2 = real_of_int (R * R + R) + 1/4"
    by (simp add: power2_eq_square algebra_simps)
  finally have "real n < real_of_int (R * R + R) + 1/4" by (simp only: ysq)
  then have "real_of_int (int n) < real_of_int (R * R + R + 1)" by simp
  then have "int n < R * R + R + 1" by (simp only: of_int_less_iff)
  then have "int n \<le> R * R + R" by simp
  then have "real_of_int (int n) \<le> real_of_int (R * R + R)" by (simp only: of_int_le_iff)
  then have nle: "real n \<le> real_of_int R * real_of_int R + real_of_int R" by simp
  define t where "t = 1 / (2 * real s)"
  have tpos: "0 < t" using spos by (simp add: t_def)
  have ts: "real s * t = 1/2" using spos by (simp add: t_def)
  have "(4 * real_of_int R + 2) * t \<le> real s * t"
    using bigr tpos by (intro mult_right_mono) simp_all
  moreover have "(4 * real_of_int R + 2) * t = 2 * ((2 * real_of_int R + 1) * t)"
    by (simp add: algebra_simps)
  ultimately have tq: "(2 * real_of_int R + 1) * t \<le> 1/4" using ts by linarith
  have tsmall: "t \<le> 1/4"
  proof -
    have "1 * t \<le> (2 * real_of_int R + 1) * t" using R0 tpos by (intro mult_right_mono) simp_all
    with tq show ?thesis by simp
  qed
  define u where "u = real_of_int R + 1/2 - t"
  have u0: "0 \<le> u" using R0 tsmall by (simp add: u_def)
  have "u\<^sup>2 = real_of_int R * real_of_int R + real_of_int R + 1/4 - (2 * real_of_int R + 1) * t + t * t"
    by (simp add: u_def power2_eq_square algebra_simps)
  moreover have "0 < t * t" using tpos by simp
  ultimately have "real n < u\<^sup>2" using nle tq by linarith
  then have "sqrt (real n) < u" using u0 by (intro real_less_lsqrt) simp_all
  then have yu: "y < real_of_int R + 1/2 - t" by (simp add: y_def u_def)
  from ts have "real s * (real_of_int R + 1/2 - t) + 1/2 = real s * (real_of_int R + 1/2)"
    by (simp add: algebra_simps)
  moreover have "real s * y < real s * (real_of_int R + 1/2 - t)" using yu spos by simp
  ultimately have "real s * y + 1/2 < real s * (real_of_int R + 1/2)" by linarith
  also have "\<dots> = real_of_int (int h * (2 * R + 1))" by (simp add: sh algebra_simps)
  finally have "\<lfloor>real s * y + 1/2\<rfloor> < int h * (2 * R + 1)" by (simp only: floor_less_iff)
  then have "m < int h * (2 * R + 1)" by (simp only: m_def round_def)
  then have "real_of_int m < real_of_int (int h * (2 * R + 1))" by (simp only: of_int_less_iff)
  then have "real_of_int m < real s * (real_of_int R + 1/2)" by (simp add: sh algebra_simps)
  then have "real_of_int m / real s < real_of_int R + 1/2"
    using spos by (simp add: pos_divide_less_eq mult.commute)
  then have upper: "real_of_int m / real s + 1/2 < real_of_int R + 1" by simp
  have "\<lfloor>real_of_int m / real s + 1/2\<rfloor> = R"
    using lower upper by (intro floor_unique) simp_all
  then show ?thesis by (simp only: mathRound_def m_def R_def y_def)
qed

lemma atLeast5_scaled:
  fixes n s :: nat
  assumes big: "10 \<le> s"
  shows "5 \<le> real_of_int (round (real s * sqrt (real n))) / real s \<longleftrightarrow> 25 \<le> n"
proof -
  define y where "y = sqrt (real n)"
  define m where "m = round (real s * y)"
  have spos: "0 < real s" using big by simp
  have s10: "10 \<le> real s" using big by simp
  have goal: "5 \<le> real_of_int m / real s \<longleftrightarrow> int (5 * s) \<le> m"
  proof -
    have "5 \<le> real_of_int m / real s \<longleftrightarrow> 5 * real s \<le> real_of_int m"
      using spos by (simp add: pos_le_divide_eq)
    also have "5 * real s = real_of_int (int (5 * s))" by simp
    also have "real_of_int (int (5 * s)) \<le> real_of_int m \<longleftrightarrow> int (5 * s) \<le> m"
      by (simp only: of_int_le_iff)
    finally show ?thesis .
  qed
  show ?thesis
  proof (cases "25 \<le> n")
    case True
    then have "(5::real)\<^sup>2 \<le> real n" by simp
    then have "5 \<le> y" unfolding y_def by (rule real_le_rsqrt)
    then have "real_of_int (int (5 * s)) \<le> real s * y" using spos by simp
    then have "round (real_of_int (int (5 * s))) \<le> round (real s * y)" by (rule round_mono)
    then have "int (5 * s) \<le> m" by (simp only: round_of_int m_def)
    with True goal show ?thesis by (simp only: m_def y_def)
  next
    case False
    then have "real n \<le> 24" by simp
    then have "real n < (49/10)\<^sup>2" by (simp add: power2_eq_square)
    then have "y < 49/10" unfolding y_def by (intro real_less_lsqrt) simp_all
    then have a: "real s * y < real s * (49/10)" using spos by simp
    have "real_of_int (int (5 * s)) = 5 * real s" by simp
    with a s10 have "real s * y + 1/2 < real_of_int (int (5 * s))" by linarith
    then have "\<lfloor>real s * y + 1/2\<rfloor> < int (5 * s)" by (simp only: floor_less_iff)
    then have "\<not> int (5 * s) \<le> m" by (simp add: m_def round_def)
    with False goal show ?thesis by (simp only: m_def y_def)
  qed
qed

lemma mathSqrt_zero: "mathSqrt 0 = 0"
  by (simp add: mathSqrt_def)

lemma roundSqrt_pos: "0 < n \<Longrightarrow> 0 < roundSqrt n"
proof -
  assume n: "0 < n"
  have "floorSqrt n \<noteq> 0"
  proof
    assume "floorSqrt n = 0"
    with floorSqrt_gt [of n] n show False by simp
  qed
  then show ?thesis by (simp add: roundSqrt_def Let_def)
qed

lemma sqrtSignificand_pos:
  assumes "0 < n"
  shows "0 < sqrtSignificand n"
proof (cases "log4 n \<le> 52")
  case True
  then show ?thesis using assms by (simp add: sqrtSignificand_def Let_def roundSqrt_pos)
next
  case False
  define q :: nat where "q = 2 ^ (log4 n - 52)"
  have "q * q = (2 * 2) ^ (log4 n - 52)" unfolding q_def by (rule power_mult_distrib [symmetric])
  also have "\<dots> = 4 ^ (log4 n - 52)" by simp
  also have "\<dots> \<le> 4 ^ log4 n" by (rule power_increasing) simp_all
  also have "\<dots> \<le> n" using assms by (rule log4_le)
  finally have qq: "q * q \<le> n" .
  have z: "4 * n > (2 * 0 + 1) * (2 * 0 + 1) * (q * q)" using qq assms by simp
  show ?thesis
  proof (cases "floorSqrt (n div (q * q)) = 0")
    case True
    with z False show ?thesis by (simp add: sqrtSignificand_def Let_def q_def [symmetric])
  next
    case nz: False
    with False show ?thesis by (simp add: sqrtSignificand_def Let_def q_def [symmetric])
  qed
qed

lemma mathSqrt_pos: "0 < mathSqrt n \<longleftrightarrow> 0 < n"
proof (cases "0 < n")
  case True
  then have "0 < sqrtSignificand (nat n)" by (intro sqrtSignificand_pos) simp
  then have "0 < real (sqrtSignificand (nat n)) * 2 ^ log4 (nat n) / 2 ^ 52" by simp
  with True show ?thesis by (simp add: mathSqrt_def)
next
  case False
  then show ?thesis by (simp add: mathSqrt_def)
qed

lemma scale_bounds:
  assumes "0 < n" and "n < 2 ^ 50"
  shows "even ((2::nat) ^ (52 - log4 n))"
    and "(2::nat) ^ 28 \<le> 2 ^ (52 - log4 n)"
    and "round (sqrt (real n)) \<le> 2 ^ 25"
proof -
  have e: "log4 n \<le> 24" using assms by (rule log4_small)
  then show "even ((2::nat) ^ (52 - log4 n))" by simp
  from e show "(2::nat) ^ 28 \<le> 2 ^ (52 - log4 n)" by (intro power_increasing) simp_all
  have "real n \<le> (2 ^ 25)\<^sup>2" using assms(2) by simp
  then have "sqrt (real n) \<le> 2 ^ 25" by (intro real_le_lsqrt) simp_all
  then have "round (sqrt (real n)) \<le> round ((2::real) ^ 25)" by (rule round_mono)
  also have "round ((2::real) ^ 25) = 2 ^ 25"
    using round_of_int [of "2 ^ 25", where ?'a = real] by simp
  finally show "round (sqrt (real n)) \<le> 2 ^ 25" .
qed

lemma mathRound_mathSqrt:
  assumes "0 \<le> n" and "n < 2 ^ 50"
  shows "mathRound (mathSqrt n) = round (sqrt (real_of_int n))"
proof (cases "n = 0")
  case True
  then show ?thesis by (simp add: mathSqrt_def mathRound_def)
next
  case False
  define k where "k = nat n"
  have k: "0 < k" "k < 2 ^ 50" "n = int k" "real_of_int n = real k"
    using assms False by (simp_all add: k_def)
  note sb = scale_bounds [OF k(1,2)]
  have "log4 k \<le> 52" using log4_small [OF k(1,2)] by simp
  note ms = mathSqrt_scaled [OF k(1) this]
  have "4 * round (sqrt (real k)) + 2 \<le> int (2 ^ 28)" using sb(3) by simp
  also have "\<dots> \<le> int (2 ^ (52 - log4 k))" using sb(2) by (simp only: of_nat_le_iff)
  finally have big: "4 * round (sqrt (real k)) + 2 \<le> int (2 ^ (52 - log4 k))" .
  show ?thesis
    unfolding k(3) ms using mathRound_scaled [OF sb(1) big] by simp
qed

lemma mathSqrt_threshold:
  assumes "0 \<le> n" and "n < 2 ^ 50"
  shows "5 \<le> mathSqrt n \<longleftrightarrow> 25 \<le> n"
proof (cases "n = 0")
  case True
  then show ?thesis by (simp add: mathSqrt_def)
next
  case False
  define k where "k = nat n"
  have k: "0 < k" "k < 2 ^ 50" "n = int k"
    using assms False by (simp_all add: k_def)
  note sb = scale_bounds [OF k(1,2)]
  have "log4 k \<le> 52" using log4_small [OF k(1,2)] by simp
  note ms = mathSqrt_scaled [OF k(1) this]
  have "(10::nat) \<le> 2 ^ 28" by simp
  also note sb(2)
  finally have big: "10 \<le> (2::nat) ^ (52 - log4 k)" .
  show ?thesis
    unfolding k(3) ms using atLeast5_scaled [OF big, of k] by simp
qed

lemma mathRound_deviates:
  "mathRound (mathSqrt (2 ^ 52 + 2 ^ 26)) = 67108865
   \<and> round (sqrt (real_of_int (2 ^ 52 + 2 ^ 26))) = 67108864"
proof -
  have a: "mathRound (mathSqrt (2 ^ 52 + 2 ^ 26)) = 67108865"
    by (simp add: mathSqrt_def mathRound_def sqrtSignificand_def roundSqrt_def Let_def
          log4.simps floorSqrt.simps)
  have "roundSqrt (2 ^ 52 + 2 ^ 26) = 67108864"
    by (simp add: roundSqrt_def Let_def floorSqrt.simps)
  then have "round (sqrt (real (2 ^ 52 + 2 ^ 26))) = 67108864"
    by (simp only: roundSqrt_round [symmetric])
  then have b: "round (sqrt (real_of_int (2 ^ 52 + 2 ^ 26))) = 67108864" by simp
  from a b show ?thesis by simp
qed

lemma abs_le_square: "\<bar>x\<bar> \<le> x * (x::int)"
proof (cases "x = 0")
  case True
  then show ?thesis by simp
next
  case False
  then have "1 \<le> \<bar>x\<bar>" by simp
  then have "\<bar>x\<bar> * 1 \<le> \<bar>x\<bar> * \<bar>x\<bar>" by (intro mult_left_mono) simp_all
  then show ?thesis by (simp add: abs_mult_self_eq)
qed

lemma dist_positive: "0 < sqrt (real_of_int n) \<longleftrightarrow> 0 < n"
  by simp

lemma dist_threshold: "5 \<le> sqrt (real_of_int n) \<longleftrightarrow> 25 \<le> n"
proof -
  have "sqrt 25 = (5::real)" using real_sqrt_abs [of 5] by simp
  then have "5 \<le> sqrt (real_of_int n) \<longleftrightarrow> sqrt 25 \<le> sqrt (real_of_int n)" by simp
  also have "\<dots> \<longleftrightarrow> 25 \<le> real_of_int n" by (rule real_sqrt_le_iff)
  also have "\<dots> \<longleftrightarrow> 25 \<le> n" by linarith
  finally show ?thesis .
qed

lemma toDoubleNat_exact: "n < 2 ^ 53 \<Longrightarrow> toDoubleNat n = n"
  by (simp add: toDoubleNat_def)

lemma distSquared_same: "distSquared p p = 0"
  by (simp add: distSquared_def toDouble_def toDoubleNat_def)

lemma distSquared_exact:
  assumes "(worldX ap - worldX bp) * (worldX ap - worldX bp)
           + (worldZ ap - worldZ bp) * (worldZ ap - worldZ bp) < 2 ^ 50"
  shows "distSquared bp ap = (worldX ap - worldX bp) * (worldX ap - worldX bp)
                             + (worldZ ap - worldZ bp) * (worldZ ap - worldZ bp)"
proof -
  define dx where "dx = worldX ap - worldX bp"
  define dz where "dz = worldZ ap - worldZ bp"
  have b: "dx * dx + dz * dz < 2 ^ 50" using assms by (simp add: dx_def dz_def)
  have x0: "0 \<le> dx * dx" and z0: "0 \<le> dz * dz" by simp_all
  have p: "(2::int) ^ 50 < 2 ^ 53" by simp
  have xx: "dx * dx < 2 ^ 53" using b z0 p by linarith
  have zz: "dz * dz < 2 ^ 53" using b x0 p by linarith
  have ss: "dx * dx + dz * dz < 2 ^ 53" using b p by linarith
  have x: "\<bar>dx\<bar> < 2 ^ 53" using abs_le_square [of dx] xx by linarith
  have z: "\<bar>dz\<bar> < 2 ^ 53" using abs_le_square [of dz] zz by linarith
  have "\<bar>dx * dx\<bar> < 2 ^ 53" "\<bar>dz * dz\<bar> < 2 ^ 53" "\<bar>dx * dx + dz * dz\<bar> < 2 ^ 53"
    using xx zz ss x0 z0 by simp_all
  then show ?thesis
    unfolding distSquared_def Let_def dx_def [symmetric] dz_def [symmetric]
    by (simp only: toDouble_exact [OF x] toDouble_exact [OF z] toDouble_exact)
qed


subsection \<open>Where a line beginning with \<open>M\<close> and ending with \<open>s\<close> can come from\<close>

lemma findGained_moved:
  "hd l = CHR ''M'' \<Longrightarrow> l \<in> set (summary (findGained b a d)) \<longleftrightarrow> l \<in> set (summary d)"
  by (induction b a d rule: findGained.induct) (auto split: option.splits)

lemma findLost_moved:
  "hd l = CHR ''M'' \<Longrightarrow> l \<in> set (summary (findLost b a d)) \<longleftrightarrow> l \<in> set (summary d)"
  by (induction b a d rule: findLost.induct) (auto split: option.splits)

lemma skillChanges_moved:
  "hd l = CHR ''M'' \<Longrightarrow> l \<in> set (summary (skillChanges b a d)) \<longleftrightarrow> l \<in> set (summary d)"
  by (induction b a d rule: skillChanges.induct) (auto simp: Let_def split: option.splits)

lemma combatSummary_moved:
  "hd l = CHR ''M'' \<Longrightarrow> l \<in> set (summary (combatSummary d)) \<longleftrightarrow> l \<in> set (summary d)"
  by (auto simp: combatSummary_def Let_def)

lemma uiStep_moved:
  "hd l = CHR ''M'' \<Longrightarrow> l \<in> set (summary (uiStep b a d)) \<longleftrightarrow> l \<in> set (summary d)"
  by (auto simp: uiStep_def Let_def)

lemma disappearedLoop_moved:
  "last l = CHR ''s'' \<Longrightarrow> l \<in> set (summary (disappearedLoop a b d)) \<longleftrightarrow> l \<in> set (summary d)"
  by (induction a b d rule: disappearedLoop.induct) (auto simp: Let_def)

lemma positionStep_summary:
  "player before = Some bp \<Longrightarrow> player after = Some ap \<Longrightarrow>
   summary (positionStep before after d) =
     summary d @ (if 5 \<le> mathSqrt (distSquared bp ap)
                  then [''Moved '' @ showInt (mathRound (mathSqrt (distSquared bp ap))) @ '' tiles'']
                  else [])"
  by (simp add: positionStep_def Let_def)

lemma positionStep_position:
  "player before = Some bp \<Longrightarrow> player after = Some ap \<Longrightarrow>
   position (positionStep before after d) =
     (if 0 < mathSqrt (distSquared bp ap)
      then \<lparr> moved = True, pos_from = Some (worldX bp, worldZ bp), pos_to = Some (worldX ap, worldZ ap),
             distance = mathRound (mathSqrt (distSquared bp ap)) \<rparr>
      else position d)"
  by (simp add: positionStep_def Let_def)

lemma computeStateDiff_position:
  "player before = Some bp \<Longrightarrow> player after = Some ap \<Longrightarrow>
   position (computeStateDiff before after) =
     (if 0 < mathSqrt (distSquared bp ap)
      then \<lparr> moved = True, pos_from = Some (worldX bp, worldZ bp), pos_to = Some (worldX ap, worldZ ap),
             distance = mathRound (mathSqrt (distSquared bp ap)) \<rparr>
      else \<lparr> moved = False, pos_from = None, pos_to = None, distance = 0 \<rparr>)"
  by (simp add: computeStateDiff_def Let_def split_beta positionStep_position createEmptyDiff_def)

lemma computeStateDiff_summary_moved:
  assumes h: "hd l = CHR ''M''" and t: "last l = CHR ''s''"
    and p: "player before = Some bp" "player after = Some ap"
  shows "l \<in> set (summary (computeStateDiff before after)) \<longleftrightarrow>
         (5 \<le> mathSqrt (distSquared bp ap) \<and>
          l = ''Moved '' @ showInt (mathRound (mathSqrt (distSquared bp ap))) @ '' tiles'')"
  unfolding computeStateDiff_def Let_def split_beta
  by (auto simp add: disappearedLoop_moved [OF t] uiStep_moved [OF h] positionStep_summary [OF p]
        combatSummary_moved [OF h] skillChanges_moved [OF h] findLost_moved [OF h]
        findGained_moved [OF h] createEmptyDiff_def)

lemma computeStateDiff_moved_line:
  assumes "player before = Some bp" and "player after = Some ap"
  shows "(''Moved '' @ x @ '' tiles'') \<in> set (summary (computeStateDiff before after)) \<longleftrightarrow>
         (5 \<le> mathSqrt (distSquared bp ap) \<and> x = showInt (mathRound (mathSqrt (distSquared bp ap))))"
  by (subst computeStateDiff_summary_moved [OF _ _ assms]) simp_all

text \<open>What \<^verbatim>\<open>computeStateDiff\<close> records for two positions less than \<^verbatim>\<open>2^25\<close> tiles apart.\<close>

lemma computeStateDiff_position_exact:
  assumes "player before = Some bp" and "player after = Some ap"
    and "(worldX ap - worldX bp) * (worldX ap - worldX bp)
         + (worldZ ap - worldZ bp) * (worldZ ap - worldZ bp) = n" and "n < 2 ^ 50"
  shows "moved (position (computeStateDiff before after)) \<longleftrightarrow> 0 < n"
    and "distance (position (computeStateDiff before after)) = round (sqrt (real_of_int n))"
proof -
  have d: "distSquared bp ap = n" using distSquared_exact [of ap bp] assms(3,4) by simp
  have n0: "0 \<le> n" using assms(3) [symmetric] by simp
  show "moved (position (computeStateDiff before after)) \<longleftrightarrow> 0 < n"
    by (simp add: computeStateDiff_position [OF assms(1,2)] d mathSqrt_pos)
  show "distance (position (computeStateDiff before after)) = round (sqrt (real_of_int n))"
  proof (cases "0 < n")
    case True
    then show ?thesis
      by (simp add: computeStateDiff_position [OF assms(1,2)] d mathSqrt_pos
            mathRound_mathSqrt [OF n0 assms(4)])
  next
    case False
    with n0 have "n = 0" by simp
    then show ?thesis
      by (simp add: computeStateDiff_position [OF assms(1,2)] d mathSqrt_pos)
  qed
qed

subsection \<open>Grouped inventories and the order of the summary\<close>

lemma groupInventory_lookup:
  "map_of (groupInventory items m) i =
     (case map_of m i of
        Some e \<Rightarrow> Some (e\<lparr> ic_count := ic_count e
                     + sum_list (map item_count (filter (\<lambda>x. item_id x = i) items)) \<rparr>)
      | None \<Rightarrow>
         (case filter (\<lambda>x. item_id x = i) items of
            [] \<Rightarrow> None
          | x # xs \<Rightarrow> Some \<lparr> ic_name = item_name x,
                             ic_count = sum_list (map item_count (x # xs)),
                             ic_id = i \<rparr>))"
proof (induction items arbitrary: m)
  case Nil
  show ?case by (simp split: option.splits)
next
  case (Cons item items)
  show ?case
    by (cases "map_of m (item_id item)"; cases "map_of m i"; cases "item_id item = i")
       (simp_all add: Cons.IH update_conv' split: list.splits option.splits)
qed

lemma findGained_prefix: "prefix (summary d) (summary (findGained b a d))"
  by (induction b a d rule: findGained.induct)
     (auto split: option.splits dest: append_prefixD)

lemma findLost_prefix: "prefix (summary d) (summary (findLost b a d))"
  by (induction b a d rule: findLost.induct)
     (auto split: option.splits dest: append_prefixD)

lemma skillChanges_prefix: "prefix (summary d) (summary (skillChanges b a d))"
  by (induction b a d rule: skillChanges.induct)
     (auto simp: Let_def split: option.splits dest: append_prefixD)

lemma combatSummary_prefix: "prefix (summary d) (summary (combatSummary d))"
  by (simp add: combatSummary_def Let_def)

lemma positionStep_prefix: "prefix (summary d) (summary (positionStep b a d))"
  by (simp add: positionStep_def Let_def split: option.splits)

lemma uiStep_prefix: "prefix (summary d) (summary (uiStep b a d))"
  by (simp add: uiStep_def Let_def)

lemma disappearedLoop_prefix: "prefix (summary d) (summary (disappearedLoop a b d))"
  by (induction a b d rule: disappearedLoop.induct)
     (auto simp: Let_def dest: append_prefixD)

lemma computeStateDiff_inventory_prefix:
  "prefix
     (summary (findLost (groupInventory (inventory after) []) (groupInventory (inventory before) [])
        (findGained (groupInventory (inventory before) []) (groupInventory (inventory after) [])
           ((createEmptyDiff (tick before))
              \<lparr> diff_tick := \<lparr> tick_before = tick before, tick_after = tick after,
                               elapsed = tick after - tick before \<rparr> \<rparr>))))
     (summary (computeStateDiff before after))"
proof -
  let ?b = "groupInventory (inventory before) []" and ?a = "groupInventory (inventory after) []"
  let ?d0 = "(createEmptyDiff (tick before))
                \<lparr> diff_tick := \<lparr> tick_before = tick before, tick_after = tick after,
                                 elapsed = tick after - tick before \<rparr> \<rparr>"
  let ?d2 = "findLost ?a ?b (findGained ?b ?a ?d0)"
  let ?d3 = "skillChanges (skillMap (skills before) []) (skills after) ?d2"
  let ?d4 = "?d3\<lparr> combat := (combat ?d3)\<lparr> healthChange := hitpoints after - hitpoints before \<rparr> \<rparr>"
  let ?d6 = "combatSummary (combatEventsStep before after ?d4)"
  let ?d7 = "positionStep before after ?d6"
  let ?d8 = "uiStep before after ?d7"
  let ?d9 = "appearedLoop (npcMap (nearbyNpcs before) []) (nearbyNpcs after) ([], ?d8)"
  let ?d10 = "disappearedLoop (fst ?d9) (npcMap (nearbyNpcs before) []) (snd ?d9)"
  have "prefix (summary ?d2) (summary ?d3)" by (rule skillChanges_prefix)
  also have "summary ?d3 = summary (combatEventsStep before after ?d4)" by simp
  also have "prefix \<dots> (summary ?d6)" by (rule combatSummary_prefix)
  also have "prefix \<dots> (summary ?d7)" by (rule positionStep_prefix)
  also have "prefix \<dots> (summary ?d8)" by (rule uiStep_prefix)
  also have "summary ?d8 = summary (snd ?d9)" by simp
  also have "prefix \<dots> (summary ?d10)" by (rule disappearedLoop_prefix)
  also have "summary ?d10 = summary (computeStateDiff before after)"
    by (simp add: computeStateDiff_def Let_def split_beta)
  finally show ?thesis .
qed

lemma computeStateDiff_inventory:
  "diff_inventory (computeStateDiff before after) =
     diff_inventory (findLost (groupInventory (inventory after) []) (groupInventory (inventory before) [])
        (findGained (groupInventory (inventory before) []) (groupInventory (inventory after) [])
           ((createEmptyDiff (tick before))
              \<lparr> diff_tick := \<lparr> tick_before = tick before, tick_after = tick after,
                               elapsed = tick after - tick before \<rparr> \<rparr>)))"
  by (simp add: computeStateDiff_def Let_def split_beta)

lemma showInt_50: "showInt 50 = ''50''"
  by (simp add: showInt_def showNat.simps digitChar_def)


subsection \<open>Experience entries\<close>

lemma in_set_map_filter: "y \<in> set (List.map_filter f xs) \<longleftrightarrow> (\<exists>x \<in> set xs. f x = Some y)"
  by (induction xs) (auto split: option.splits)

lemma xpGained_only_from_experience:
  assumes "e \<in> set (xpGained (diff_skills (computeStateDiff before after)))"
  shows "\<exists>skill \<in> set (skills after). \<exists>beforeSkill.
      map_of (skillMap (skills before) []) (skill_name skill) = Some beforeSkill
    \<and> experience skill > experience beforeSkill
    \<and> xp_name e = skill_name skill
    \<and> xp e = experience skill - experience beforeSkill
    \<and> levelUp e = (baseLevel skill > baseLevel beforeSkill)"
proof -
  from assms obtain skill where s: "skill \<in> set (skills after)"
    and x: "xpEntry (skillMap (skills before) []) skill = Some e"
    unfolding computeStateDiff_xpGained in_set_map_filter by blast
  from x obtain b where b: "map_of (skillMap (skills before) []) (skill_name skill) = Some b"
    by (cases "map_of (skillMap (skills before) []) (skill_name skill)") (simp_all add: xpEntry_def)
  from x b have "experience skill > experience b"
    by (cases "experience skill > experience b") (simp_all add: xpEntry_def)
  with x b have "xp_name e = skill_name skill \<and> xp e = experience skill - experience b
      \<and> levelUp e = (baseLevel skill > baseLevel b)"
    by (auto simp: xpEntry_def)
  with s b \<open>experience skill > experience b\<close> show ?thesis by blast
qed

section \<open>Properties of the task context\<close>

lemma checkpointBegin_status [simp]:
  "ctx_status (fst (checkpointBegin env why ctx)) = ctx_status ctx"
  by (simp add: checkpointBegin_def Let_def log_def)

lemma checkpointBegin_logs:
  "logs (fst (checkpointBegin env why ctx)) =
     logs ctx @ [''[Checkpoint '' @ showNat (Suc (checkpointCount ctx)) @ ''] '' @ why]"
  by (simp add: checkpointBegin_def Let_def log_def)

text \<open>
  \<^verbatim>\<open>checkpoint\<close> throws exactly when its handler rejects with a value whose \<^verbatim>\<open>message\<close>
  the \<^verbatim>\<open>catch\<close> block cannot print, and what it throws then is what that attempt throws:
  for \<^verbatim>\<open>undefined\<close> and \<^verbatim>\<open>null\<close>, a \<^verbatim>\<open>TypeError\<close>.
\<close>

lemma checkpoint_throws:
  "checkpoint env why handler ctx = Throws e \<longleftrightarrow>
     (\<exists>h v. handler = Some h \<and> h (snd (checkpointBegin env why ctx)) = Throws v
            \<and> errorMessage v = Throws e)"
proof (cases handler)
  case None
  then show ?thesis by (simp add: checkpoint_def split_beta)
next
  case (Some h)
  show ?thesis
  proof (cases "h (snd (checkpointBegin env why ctx))")
    case (Value r)
    with Some show ?thesis
      by (simp add: checkpoint_def checkpointEnd_def checkpointTry_def split_beta)
  next
    case (Throws v)
    with Some show ?thesis
      by (cases "errorMessage v")
         (simp_all add: checkpoint_def checkpointEnd_def checkpointTry_def split_beta)
  qed
qed

lemma errorMessage_throws:
  "errorMessage v = Throws e \<longleftrightarrow>
     (v = Undefined \<and> e = propertyReadError Undefined) \<or> (v = Null \<and> e = propertyReadError Null)
     \<or> v = Unreadable e"
  by (cases v) (auto simp: errorMessage_def)

text \<open>
  A handler that rejects with a value whose \<^verbatim>\<open>message\<close> can be read: the rejection is
  caught, logged after the checkpoint's own line, and the call returns
  \<^verbatim>\<open>{continue: true}\<close> with the status and the abort reason as they were.
\<close>

lemma checkpoint_catches:
  assumes "h (snd (checkpointBegin env why ctx)) = Throws v" and "errorMessage v = Value msg"
  shows "\<exists>ctx'. checkpoint env why (Some h) ctx = Value (ctx', continueResult)
           \<and> logs ctx' = logs ctx @ [''[Checkpoint '' @ showNat (Suc (checkpointCount ctx)) @ ''] '' @ why,
                                      ''[Checkpoint Error] '' @ msg]
           \<and> ctx_status ctx' = ctx_status ctx
           \<and> abortReason ctx' = abortReason ctx"
  using assms
  by (simp add: checkpoint_def checkpointEnd_def checkpointTry_def split_beta Let_def
        log_def checkpointBegin_def)

lemma checkpoint_catches_example:
  "checkpoint \<lparr> now = 2000, sdkState = None, formatted = [] \<rparr> ''Progress check''
       (Some (\<lambda>st. Throws (ErrorObject ''connection lost''))) idleContext
     = Value (idleContext\<lparr> checkpointCount := 1,
                logs := [''[Checkpoint 1] Progress check'', ''[Checkpoint Error] connection lost''] \<rparr>,
              \<lparr> continue = True, newInstructions = None, abort = None, cr_abortReason = None \<rparr>)"
  by (simp add: checkpoint_def checkpointEnd_def checkpointTry_def errorMessage_def split_beta Let_def
        log_def checkpointBegin_def idleContext_def newTaskContext_def continueResult_def
        showNat.simps digitChar_def)

lemma reportProgress_reports:
  "progressReports (fst (reportProgress env args ctx)) =
     progressReports ctx @ [\<lparr> action = pa_action args,
                              tp_status = (case pa_status args of None \<Rightarrow> p_in_progress | Some s \<Rightarrow> s),
                              progress = pa_progress args, message = pa_message args,
                              data = pa_data args \<rparr>]"
  by (simp add: reportProgress_def Let_def log_def)

lemma checkpoint_reports:
  "checkpoint env why handler ctx = Value (ctx', r) \<Longrightarrow> progressReports ctx' = progressReports ctx"
  by (auto simp: checkpoint_def checkpointEnd_def checkpointTry_def split_beta Let_def
        log_def checkpointBegin_def split: option.splits Outcome.splits if_splits)

lemma applyOp_prefix: "prefix (progressReports ctx) (progressReports (applyOp op ctx))"
proof (cases op)
  case (Pair env opn)
  show ?thesis
  proof (cases opn)
    case (OpCheckpoint why handler)
    with Pair show ?thesis
      by (auto simp: checkpointBegin_def Let_def log_def split: Outcome.splits dest: checkpoint_reports)
  qed (simp_all add: Pair reportProgress_reports setAction_def complete_def fail_def log_def warn_def
        ctxCleanup_def onStateUpdate_def Let_def)
qed

lemma applyOps_prefix: "prefix (progressReports ctx) (progressReports (applyOps ops ctx))"
  unfolding applyOps_def
proof (induction ops arbitrary: ctx)
  case Nil
  show ?case by simp
next
  case (Cons op ops)
  have "prefix (progressReports ctx) (progressReports (applyOp op ctx))" by (rule applyOp_prefix)
  also have "prefix \<dots> (progressReports (foldl (\<lambda>c op. applyOp op c) (applyOp op ctx) ops))"
    by (rule Cons.IH)
  finally show ?case by simp
qed


section \<open>Properties of the task manager\<close>

subsection \<open>Cleanup as a filter\<close>

lemma cleanupLoop_filter:
  "cleanupLoop nw a es (ts, c) =
     (filter (\<lambda>(k, t). k \<notin> fst ` {e \<in> set es. evictable nw a (snd e)}) ts,
      c + length (filter (\<lambda>(k, t). evictable nw a t) es))"
proof (induction es arbitrary: ts c)
  case Nil
  show ?case by simp
next
  case (Cons e es)
  obtain k t where e: "e = (k, t)" by (cases e)
  show ?case
  proof (cases "evictable nw a t")
    case True
    have "filter (\<lambda>(k', t'). k' \<notin> fst ` {e \<in> set es. evictable nw a (snd e)}) (AList.delete k ts)
        = filter (\<lambda>(k', t'). k' \<notin> fst ` {e \<in> set ((k, t) # es). evictable nw a (snd e)}) ts"
      unfolding AList.delete_eq filter_filter
      by (rule filter_cong) (use True in \<open>auto simp: image_iff\<close>)
    with True show ?thesis by (simp add: e Cons.IH)
  next
    case False
    have "{e \<in> set ((k, t) # es). evictable nw a (snd e)} = {e \<in> set es. evictable nw a (snd e)}"
      using False by auto
    with False show ?thesis by (simp add: e Cons.IH)
  qed
qed

lemma cleanupLoop_distinct:
  assumes "distinct (map fst ts)"
  shows "cleanupLoop nw a ts (ts, 0) =
     (filter (\<lambda>(k, t). \<not> evictable nw a t) ts,
      length (filter (\<lambda>(k, t). evictable nw a t) ts))"
proof -
  have "filter (\<lambda>(k, t). k \<notin> fst ` {e \<in> set ts. evictable nw a (snd e)}) ts
      = filter (\<lambda>(k, t). \<not> evictable nw a t) ts"
  proof (rule filter_cong [OF refl])
    fix x assume x: "x \<in> set ts"
    obtain k t where kt: "x = (k, t)" by (cases x)
    have "k \<in> fst ` {e \<in> set ts. evictable nw a (snd e)} \<longleftrightarrow> evictable nw a t"
    proof
      assume "k \<in> fst ` {e \<in> set ts. evictable nw a (snd e)}"
      then obtain t' where t': "(k, t') \<in> set ts" "evictable nw a t'" by auto
      from assms x t'(1) have "t' = t" unfolding kt by (rule_tac eq_key_imp_eq_value)
      with t'(2) show "evictable nw a t" by simp
    next
      assume "evictable nw a t"
      with x kt show "k \<in> fst ` {e \<in> set ts. evictable nw a (snd e)}" by force
    qed
    then show "(case x of (k, t) \<Rightarrow> k \<notin> fst ` {e \<in> set ts. evictable nw a (snd e)})
             = (case x of (k, t) \<Rightarrow> \<not> evictable nw a t)"
      by (simp add: kt)
  qed
  then show ?thesis by (simp add: cleanupLoop_filter)
qed


lemma map_of_filter_distinct:
  assumes "distinct (map fst ts)"
  shows "map_of (filter (\<lambda>(k, t). P t) ts) k =
           (case map_of ts k of None \<Rightarrow> None | Some t \<Rightarrow> if P t then Some t else None)"
  using assms
proof (induction ts)
  case Nil
  show ?case by simp
next
  case (Cons e ts)
  obtain k' t' where e: "e = (k', t')" by (cases e)
  from Cons.prems have d: "distinct (map fst ts)" and n: "k' \<notin> fst ` set ts" by (simp_all add: e)
  from n have none: "map_of ts k' = None" by (simp add: map_of_eq_None_iff)
  show ?case
    using Cons.IH [OF d] none by (auto simp: e split: option.splits)
qed


subsection \<open>Evaluating example runs\<close>

lemma showNat_digits:
  "showNat (Suc 0) = ''1''" "showNat (Suc (Suc 0)) = ''2''" "showNat (Suc (Suc (Suc 0))) = ''3''"
  by (simp_all add: showNat.simps digitChar_def)

lemmas run_defs = runTask_def startTask_def generateTaskId_def newTaskManager_def newTaskContext_def
  checkpointBegin_def handleCheckpoint_def getStatus_def getStateDiffFromStart_def
  getStateDiffSinceLastCheckpoint_def log_def updateTask_def completeTask_def inContext_def
  complete_def reportProgress_def onProgressCallback_def ctxCleanup_def envAt_def

lemma threeTasks_table:
  "map (\<lambda>x. (fst x, status (snd x), lastUpdate (snd x))) (tasks threeTasks)
     = [(''task-1-0'', completed, 0), (''task-2-0'', awaiting_feedback, 0),
        (''task-3-lfls'', completed, 1000000)]"
  by (simp add: threeTasks_def run_defs Let_def showNat_digits showBase36.simps base36Char_def)



lemmas resume_defs = continueTaskAndRun_def continueTask_def abortTaskAndRun_def abortTask_def
  runResolved_def afterCheckpoint_def checkpointEnd_def checkpointTry_def orElse_def
  taskStatus_def pendingReason_def reportedStatuses_def taskLogs_def getLogs_def
  shouldContinue_def setAction_def failTask_def fail_def


subsection \<open>Status and pending record agree in every reachable manager\<close>

lemma set_update_cases: "e \<in> set (AList.update k v al) \<Longrightarrow> e = (k, v) \<or> e \<in> set al"
  by (induction al) (auto split: if_splits)

lemma setTask_tableOK:
  "tableOK m \<Longrightarrow> consistent t \<Longrightarrow> tableOK (m\<lparr> tasks := AList.update tid t (tasks m) \<rparr>)"
  by (auto simp: tableOK_def distinct_update dest!: set_update_cases)

lemma lookup_consistent:
  "tableOK m \<Longrightarrow> map_of (tasks m) tid = Some t \<Longrightarrow> consistent t"
  by (auto simp: tableOK_def dest!: map_of_SomeD)

lemma updateTask_tableOK:
  "tableOK m \<Longrightarrow> (\<And>t. consistent t \<Longrightarrow> consistent (f t)) \<Longrightarrow> tableOK (updateTask tid f m)"
  by (auto simp: updateTask_def split: option.splits intro!: setTask_tableOK dest: lookup_consistent)

lemma consistent_context [simp]: "consistent (t\<lparr> task_context := c \<rparr>) = consistent t"
  by (simp add: consistent_def)

lemma foldl_callback [simp]:
  "status (foldl (onProgressCallback env) t ps) = status t"
  "pendingCheckpoint (foldl (onProgressCallback env) t ps) = pendingCheckpoint t"
  by (induction ps arbitrary: t) (simp_all add: onProgressCallback_def)

lemma inContext_fields [simp]:
  "status (inContext env f t) = status t"
  "pendingCheckpoint (inContext env f t) = pendingCheckpoint t"
  by (simp_all add: inContext_def split_beta)

lemma consistent_inContext [simp]: "consistent (inContext env f t) = consistent t"
  by (simp add: consistent_def)

lemma completeTask_tableOK: "tableOK m \<Longrightarrow> tableOK (completeTask env tid result m)"
  unfolding completeTask_def by (rule updateTask_tableOK) (simp_all add: Let_def consistent_def)

lemma failTask_tableOK: "tableOK m \<Longrightarrow> tableOK (failTask env tid err m)"
  unfolding failTask_def by (rule updateTask_tableOK) (simp_all add: Let_def consistent_def)

lemma handleCheckpoint_tableOK:
  "tableOK m \<Longrightarrow> tableOK (snd (handleCheckpoint env tid st k m))"
  by (auto simp: handleCheckpoint_def split: option.splits intro!: setTask_tableOK simp: consistent_def)

lemma runBody_tableOK: "tableOK m \<Longrightarrow> tableOK (runBody env tid body m)"
proof (induction env tid body m rule: runBody.induct)
  case (1 env tid m)
  then show ?case by (simp add: completeTask_tableOK)
next
  case (2 env tid msg rest m)
  then show ?case by (simp add: failTask_tableOK split: option.splits)
next
  case (3 env tid rest m)
  then show ?case by (simp add: completeTask_tableOK split: option.splits)
next
  case (4 env tid a rest m)
  then show ?case by (simp add: updateTask_tableOK)
next
  case (5 env tid args rest m)
  then show ?case by (simp add: updateTask_tableOK)
next
  case (6 env tid msg rest m)
  then show ?case by (simp add: updateTask_tableOK)
next
  case (7 env tid why rest m)
  show ?case
  proof (cases "map_of (tasks m) tid")
    case None
    with 7 show ?thesis by simp
  next
    case (Some task)
    obtain ctx1 st where cb: "checkpointBegin env why (task_context task) = (ctx1, st)"
      by (cases "checkpointBegin env why (task_context task)")
    let ?m1 = "m\<lparr> tasks := AList.update tid (task\<lparr> task_context := ctx1 \<rparr>) (tasks m) \<rparr>"
    have ok1: "tableOK ?m1"
      using "7.prems" Some by (intro setTask_tableOK) (auto dest: lookup_consistent)
    show ?thesis
    proof (cases "onCheckpoint ctx1")
      case False
      with Some cb ok1 "7.IH"(2) [OF Some refl cb [symmetric] refl False] show ?thesis by simp
    next
      case True
      obtain r m2 where hc: "handleCheckpoint env tid st (ResumeBody rest) ?m1 = (r, m2)"
        by (cases "handleCheckpoint env tid st (ResumeBody rest) ?m1")
      have ok2: "tableOK m2"
        using handleCheckpoint_tableOK [OF ok1, of env tid st "ResumeBody rest"] hc by simp
      show ?thesis
      proof (cases r)
        case None
        with Some cb True hc ok2 show ?thesis by simp
      next
        case (Some res)
        have "tableOK (updateTask tid (\<lambda>t. t\<lparr> task_context := afterCheckpoint res (task_context t) \<rparr>) m2)"
          using ok2 by (rule updateTask_tableOK) simp
        with \<open>map_of (tasks m) tid = Some task\<close> cb True hc Some
          "7.IH"(1) [OF \<open>map_of (tasks m) tid = Some task\<close> refl cb [symmetric] refl True hc [symmetric] Some]
        show ?thesis by simp
      qed
    qed
  qed
next
  case (8 env tid why rest m)
  show ?case
  proof (cases "map_of (tasks m) tid")
    case None
    with 8 show ?thesis by simp
  next
    case (Some task)
    obtain ctx1 st where cb: "checkpointBegin env why (task_context task) = (ctx1, st)"
      by (cases "checkpointBegin env why (task_context task)")
    let ?m1 = "m\<lparr> tasks := AList.update tid (task\<lparr> task_context := ctx1 \<rparr>) (tasks m) \<rparr>"
    have ok1: "tableOK ?m1"
      using "8.prems" Some by (intro setTask_tableOK) (auto dest: lookup_consistent)
    show ?thesis
    proof (cases "onCheckpoint ctx1")
      case False
      with Some cb ok1 "8.IH"(3) [OF Some refl cb [symmetric] refl False] show ?thesis by simp
    next
      case True
      obtain r m2 where hc: "handleCheckpoint env tid st FinishCall ?m1 = (r, m2)"
        by (cases "handleCheckpoint env tid st FinishCall ?m1")
      have ok2: "tableOK m2"
        using handleCheckpoint_tableOK [OF ok1, of env tid st FinishCall] hc by simp
      show ?thesis
      proof (cases r)
        case None
        with \<open>map_of (tasks m) tid = Some task\<close> cb True hc ok2
          "8.IH"(1) [OF \<open>map_of (tasks m) tid = Some task\<close> refl cb [symmetric] refl True hc [symmetric] None]
        show ?thesis by simp
      next
        case (Some res)
        have "tableOK (updateTask tid (\<lambda>t. t\<lparr> task_context := afterCheckpoint res (task_context t) \<rparr>) m2)"
          using ok2 by (rule updateTask_tableOK) simp
        with \<open>map_of (tasks m) tid = Some task\<close> cb True hc Some
          "8.IH"(2) [OF \<open>map_of (tasks m) tid = Some task\<close> refl cb [symmetric] refl True hc [symmetric] Some]
        show ?thesis by simp
      qed
    qed
  qed
next
  case (9 env tid rest m)
  then show ?case by simp
qed

lemma startTask_tableOK:
  "tableOK m \<Longrightarrow> tableOK (snd (snd (startTask env bname body descr interval m)))"
  by (auto simp: startTask_def generateTaskId_def Let_def tableOK_def distinct_update consistent_def
      dest!: set_update_cases)

lemma runTask_tableOK: "tableOK m \<Longrightarrow> tableOK (snd (runTask env bname body descr m))"
  by (simp add: runTask_def split_beta runBody_tableOK startTask_tableOK)

lemma runResolved_tableOK: "tableOK m \<Longrightarrow> tableOK (runResolved env tid resolved m)"
  by (auto simp: runResolved_def Let_def split: option.splits Resolver.splits
      intro!: runBody_tableOK updateTask_tableOK)

lemma continueTask_tableOK: "tableOK m \<Longrightarrow> tableOK (fst (snd (continueTask env tid instructions m)))"
  by (auto simp: continueTask_def Let_def consistent_def split: option.splits intro!: setTask_tableOK)

lemma abortTask_tableOK: "tableOK m \<Longrightarrow> tableOK (fst (snd (abortTask env tid why m)))"
  by (auto simp: abortTask_def Let_def consistent_def split: option.splits intro!: setTask_tableOK)

lemma cleanup_tableOK: "tableOK m \<Longrightarrow> tableOK (snd (cleanup env maxAge m))"
  by (auto simp: cleanup_def Let_def cleanupLoop_filter tableOK_def distinct_map_filter)

lemma reachable_tableOK: "reachable m \<Longrightarrow> tableOK m"
proof (induction rule: reachable.induct)
  case init
  show ?case by (simp add: tableOK_def newTaskManager_def)
next
  case (start m env bname body descr interval)
  then show ?case by (simp add: startTask_tableOK)
next
  case (proceed m env tid body)
  then show ?case by (simp add: runBody_tableOK)
next
  case (resume m env tid instructions)
  then show ?case
    by (simp add: continueTaskAndRun_def split_beta runResolved_tableOK continueTask_tableOK)
next
  case (stop m env tid why)
  then show ?case
    by (simp add: abortTaskAndRun_def split_beta runResolved_tableOK abortTask_tableOK)
next
  case (finish m env tid result)
  then show ?case by (simp add: completeTask_tableOK)
next
  case (break m env tid err)
  then show ?case by (simp add: failTask_tableOK)
next
  case (clean m env maxAge)
  then show ?case by (simp add: cleanup_tableOK)
next
  case (update m tid env)
  then show ?case by (simp add: updateTask_tableOK)
qed

lemma reachable_running_no_pending:
  "reachable m \<Longrightarrow> getTaskStatus m tid = Some task \<Longrightarrow> status task = running
     \<Longrightarrow> pendingCheckpoint task = None"
  using lookup_consistent [OF reachable_tableOK, of m tid task]
  by (simp add: getTaskStatus_def consistent_def)

lemma reachable_awaiting_pending:
  "reachable m \<Longrightarrow> getTaskStatus m tid = Some task \<Longrightarrow> status task = awaiting_feedback
     \<Longrightarrow> pendingCheckpoint task \<noteq> None"
  using lookup_consistent [OF reachable_tableOK, of m tid task]
  by (simp add: getTaskStatus_def consistent_def)

lemma reachable_distinct: "reachable m \<Longrightarrow> distinct (map fst (tasks m))"
  using reachable_tableOK [of m] by (simp add: tableOK_def)

lemma continueTask_other:
  "other \<noteq> tid \<Longrightarrow>
   getTaskStatus (fst (snd (continueTask env tid instructions m))) other = getTaskStatus m other"
  by (simp add: continueTask_def getTaskStatus_def update_conv' Let_def split: option.splits)

lemma reachable_runTask: "reachable m \<Longrightarrow> reachable (snd (runTask env bname body descr m))"
  by (simp add: runTask_def split_beta reachable.proceed reachable.start)

lemma reachable_threeTasks: "reachable threeTasks"
  unfolding threeTasks_def by (intro reachable_runTask reachable.init)

lemma reachable_busyTask: "reachable busyTask"
  unfolding busyTask_def by (intro reachable_runTask reachable.init)



subsection \<open>What \<^verbatim>\<open>abortTask\<close> does to a suspended task\<close>

lemma abortTask_paused:
  assumes "getTaskStatus m tid = Some task" and "pendingCheckpoint task = Some p"
  shows "fst (abortTask env tid why m) = Value ()"
    and "snd (snd (abortTask env tid why m))
           = Some (resolve p, \<lparr> continue = False, newInstructions = None, abort = Some True,
                                cr_abortReason = Some (orElse why ''Task aborted by user'') \<rparr>)"
    and "taskStatus (fst (snd (abortTask env tid why m))) tid = Some aborted"
    and "pendingReason (fst (snd (abortTask env tid why m))) tid = None"
  using assms
  by (simp_all add: abortTask_def getTaskStatus_def taskStatus_def pendingReason_def Let_def
        update_conv')


subsection \<open>What \<^verbatim>\<open>continueTask\<close> does\<close>

text \<open>
  \<^verbatim>\<open>continueTask\<close> fails, leaving the manager as it was and resolving nothing, when the
  task id is unknown or the task has no pending-checkpoint record; in every reachable manager
  a running task has no such record, so resuming it fails, and a task awaiting feedback has
  one.  When the task has a record, the call returns
  \<^verbatim>\<open>{continue: true, newInstructions: instructions}\<close>, resolves the record's promise with
  that result, clears the record, sets the status to \<open>running\<close> and the last update to the
  current time, and leaves every other task and the order of the table as they were.
\<close>

lemma continueTask_guard:
  "(getTaskStatus m tid = None \<longrightarrow>
      continueTask env tid instructions m = (Throws (ErrorObject (''Task '' @ tid @ '' not found'')), m, None))
 \<and> (\<forall>task. getTaskStatus m tid = Some task \<and> pendingCheckpoint task = None \<longrightarrow>
      continueTask env tid instructions m
        = (Throws (ErrorObject (''Task '' @ tid @ '' is not paused at a checkpoint'')), m, None))
 \<and> (\<forall>task. reachable m \<and> getTaskStatus m tid = Some task \<and> status task = running \<longrightarrow>
      continueTask env tid instructions m
        = (Throws (ErrorObject (''Task '' @ tid @ '' is not paused at a checkpoint'')), m, None))
 \<and> (\<forall>task. reachable m \<and> getTaskStatus m tid = Some task \<and> status task = awaiting_feedback \<longrightarrow>
      pendingCheckpoint task \<noteq> None)
 \<and> (\<forall>task p. getTaskStatus m tid = Some task \<and> pendingCheckpoint task = Some p \<longrightarrow>
      (let result = \<lparr> continue = True, newInstructions = instructions, abort = None,
                      cr_abortReason = None \<rparr>;
           m' = fst (snd (continueTask env tid instructions m))
       in fst (continueTask env tid instructions m) = Value result
        \<and> snd (snd (continueTask env tid instructions m)) = Some (resolve p, result)
        \<and> getTaskStatus m' tid
            = Some (task\<lparr> pendingCheckpoint := None, status := running, lastUpdate := now env \<rparr>)
        \<and> (\<forall>other. other \<noteq> tid \<longrightarrow> getTaskStatus m' other = getTaskStatus m other)
        \<and> map fst (tasks m') = map fst (tasks m)
        \<and> taskCounter m' = taskCounter m))"
proof (intro conjI allI impI)
  assume "getTaskStatus m tid = None"
  then show "continueTask env tid instructions m = (Throws (ErrorObject (''Task '' @ tid @ '' not found'')), m, None)"
    by (simp add: continueTask_def getTaskStatus_def)
next
  fix task assume "getTaskStatus m tid = Some task \<and> pendingCheckpoint task = None"
  then show "continueTask env tid instructions m
        = (Throws (ErrorObject (''Task '' @ tid @ '' is not paused at a checkpoint'')), m, None)"
    by (simp add: continueTask_def getTaskStatus_def)
next
  fix task assume a: "reachable m \<and> getTaskStatus m tid = Some task \<and> status task = running"
  then have "pendingCheckpoint task = None"
    using reachable_running_no_pending by blast
  with a show "continueTask env tid instructions m
        = (Throws (ErrorObject (''Task '' @ tid @ '' is not paused at a checkpoint'')), m, None)"
    by (simp add: continueTask_def getTaskStatus_def)
next
  fix task assume "reachable m \<and> getTaskStatus m tid = Some task \<and> status task = awaiting_feedback"
  then show "pendingCheckpoint task \<noteq> None"
    using reachable_awaiting_pending by blast
next
  fix task p assume a: "getTaskStatus m tid = Some task \<and> pendingCheckpoint task = Some p"
  then have k: "tid \<in> fst ` set (tasks m)"
    by (auto simp: getTaskStatus_def dest!: map_of_SomeD intro: rev_image_eqI)
  have keys: "map fst (AList.update tid v (tasks m)) = map fst (tasks m)" for v
    using k by (simp add: update_keys)
  from a show "let result = \<lparr> continue = True, newInstructions = instructions, abort = None,
                      cr_abortReason = None \<rparr>;
           m' = fst (snd (continueTask env tid instructions m))
       in fst (continueTask env tid instructions m) = Value result
        \<and> snd (snd (continueTask env tid instructions m)) = Some (resolve p, result)
        \<and> getTaskStatus m' tid
            = Some (task\<lparr> pendingCheckpoint := None, status := running, lastUpdate := now env \<rparr>)
        \<and> (\<forall>other. other \<noteq> tid \<longrightarrow> getTaskStatus m' other = getTaskStatus m other)
        \<and> map fst (tasks m') = map fst (tasks m)
        \<and> taskCounter m' = taskCounter m"
    unfolding Let_def
    by (auto simp: continueTask_other)
       (simp_all add: continueTask_def getTaskStatus_def update_conv' Let_def keys)
qed



text \<open>
  A task whose body is waiting for an action of the SDK is \<open>running\<close>: resuming it is
  refused and nothing changes.
\<close>

lemma continueTask_running_example:
  "reachable busyTask
   \<and> taskStatus busyTask ''task-1-rs'' = Some running
   \<and> continueTask (envAt 2000) ''task-1-rs'' None busyTask
       = (Throws (ErrorObject ''Task task-1-rs is not paused at a checkpoint''), busyTask, None)"
proof -
  have g: "getTaskStatus busyTask ''task-1-rs'' \<noteq> None
           \<and> status (the (getTaskStatus busyTask ''task-1-rs'')) = running"
    by (simp add: busyTask_def run_defs getTaskStatus_def Let_def showNat_digits
          showBase36.simps base36Char_def)
  then obtain task where t: "getTaskStatus busyTask ''task-1-rs'' = Some task" "status task = running"
    by auto
  from continueTask_guard [of busyTask "''task-1-rs''" "envAt 2000" None] reachable_busyTask t
  have "continueTask (envAt 2000) ''task-1-rs'' None busyTask
       = (Throws (ErrorObject (''Task '' @ ''task-1-rs'' @ '' is not paused at a checkpoint'')), busyTask, None)"
    by blast
  with reachable_busyTask t show ?thesis by (simp add: taskStatus_def getTaskStatus_def)
qed

section \<open>The claims about the diff\<close>

text \<open>
  Claim C6.  \<^verbatim>\<open>computeStateDiff\<close> merges the stack entries of one item identity by
  summing their counts before it compares the snapshots.  If the earlier snapshot holds two
  stacks of identity 995 with counts 100 and 50 and the later one a single stack of 200,
  the grouped earlier count is 150, nothing is recorded as newly gained or as lost, the one
  recorded change goes from 150 to 200 and the first summary line is \<open>+50\<close> followed by the
  item's name: the net gain of 50, not 200.  In general the grouped entry of an identity
  carries the name of its first stack and the sum of the counts of all its stacks.
\<close>

theorem inventory_merge:
  "(let before' = before\<lparr> inventory := [\<lparr> item_id = 995, item_name = n1, item_count = 100 \<rparr>,
                                         \<lparr> item_id = 995, item_name = n2, item_count = 50 \<rparr>] \<rparr>;
        after' = after\<lparr> inventory := [\<lparr> item_id = 995, item_name = n3, item_count = 200 \<rparr>] \<rparr>;
        D = computeStateDiff before' after'
    in map_of (groupInventory (inventory before') []) 995
         = Some \<lparr> ic_name = n1, ic_count = 150, ic_id = 995 \<rparr>
     \<and> gained (diff_inventory D) = []
     \<and> lost (diff_inventory D) = []
     \<and> changed (diff_inventory D)
         = [\<lparr> chg_name = n3, chg_count = 200, chg_id = 995, chg_before = 150, chg_after = 200 \<rparr>]
     \<and> take 1 (summary D) = [''+50 '' @ n3])
   \<and> map_of (groupInventory items []) i =
       (case filter (\<lambda>x. item_id x = i) items of
          [] \<Rightarrow> None
        | x # xs \<Rightarrow> Some \<lparr> ic_name = item_name x,
                           ic_count = sum_list (map item_count (x # xs)),
                           ic_id = i \<rparr>)"
proof -
  let ?b = "before\<lparr> inventory := [\<lparr> item_id = 995, item_name = n1, item_count = 100 \<rparr>,
                                   \<lparr> item_id = 995, item_name = n2, item_count = 50 \<rparr>] \<rparr>"
  let ?a = "after\<lparr> inventory := [\<lparr> item_id = 995, item_name = n3, item_count = 200 \<rparr>] \<rparr>"
  have inv: "diff_inventory (computeStateDiff ?b ?a) =
          \<lparr> gained = [], lost = [],
            changed = [\<lparr> chg_name = n3, chg_count = 200, chg_id = 995, chg_before = 150, chg_after = 200 \<rparr>] \<rparr>"
    unfolding computeStateDiff_inventory by (simp add: createEmptyDiff_def)
  have "prefix [''+50 '' @ n3] (summary (computeStateDiff ?b ?a))"
    using computeStateDiff_inventory_prefix [of ?a ?b]
    by (simp add: createEmptyDiff_def showInt_50)
  then have sm: "take 1 (summary (computeStateDiff ?b ?a)) = [''+50 '' @ n3]"
    by (auto simp: prefix_def)
  have g: "map_of (groupInventory (inventory ?b) []) 995 = Some \<lparr> ic_name = n1, ic_count = 150, ic_id = 995 \<rparr>"
    by simp
  show ?thesis
    unfolding Let_def using inv sm g by (simp add: groupInventory_lookup)
qed

text \<open>
  Claim C4, as amended.  For every snapshot \<open>S\<close> whose skill names are distinct and whose
  combat events and game messages carry ticks no later than the snapshot's own tick,
  \<^verbatim>\<open>computeStateDiff(S, S)\<close> has an empty summary, no inventory entries, no experience
  entries, zero combat aggregates, \<open>moved = false\<close> with distance 0, all six interface
  flags false, no appeared, disappeared or died NPCs and no new messages.
\<close>

theorem diff_identity:
  assumes "distinct (map skill_name (skills S))"
    and "\<forall>e \<in> set (optList (combatEvents S)). ev_tick e \<le> tick S"
    and "\<forall>m \<in> set (optList (gameMessages S)). msg_tick m \<le> tick S"
  shows "summary (computeStateDiff S S) = []
       \<and> gained (diff_inventory (computeStateDiff S S)) = []
       \<and> lost (diff_inventory (computeStateDiff S S)) = []
       \<and> changed (diff_inventory (computeStateDiff S S)) = []
       \<and> xpGained (diff_skills (computeStateDiff S S)) = []
       \<and> damageTaken (combat (computeStateDiff S S)) = 0
       \<and> damageDealt (combat (computeStateDiff S S)) = 0
       \<and> kills (combat (computeStateDiff S S)) = 0
       \<and> healthChange (combat (computeStateDiff S S)) = 0
       \<and> \<not> moved (position (computeStateDiff S S))
       \<and> distance (position (computeStateDiff S S)) = 0
       \<and> \<not> dialogOpened (ui (computeStateDiff S S))
       \<and> \<not> dialogClosed (ui (computeStateDiff S S))
       \<and> \<not> interfaceOpened (ui (computeStateDiff S S))
       \<and> \<not> interfaceClosed (ui (computeStateDiff S S))
       \<and> \<not> shopOpened (ui (computeStateDiff S S))
       \<and> \<not> shopClosed (ui (computeStateDiff S S))
       \<and> appeared (npcs (computeStateDiff S S)) = []
       \<and> disappeared (npcs (computeStateDiff S S)) = []
       \<and> died (npcs (computeStateDiff S S)) = []
       \<and> messages (computeStateDiff S S) = []
       \<and> elapsed (diff_tick (computeStateDiff S S)) = 0"
proof -
  have "computeStateDiff S S = createEmptyDiff (tick S)"
    using assms by (intro computeStateDiff_same) (simp_all add: optList_def)
  then show ?thesis by (simp add: createEmptyDiff_def)
qed

text \<open>
  The hypotheses hold of a snapshot with two stacks of one item, two skills, combat events,
  an open shop, two NPCs and a game message, all of them no later than its tick.
\<close>

theorem diff_identity_witness:
  "distinct (map skill_name (skills busySnapshot))
   \<and> list_all (\<lambda>e. ev_tick e \<le> tick busySnapshot) (optList (combatEvents busySnapshot))
   \<and> list_all (\<lambda>m. msg_tick m \<le> tick busySnapshot) (optList (gameMessages busySnapshot))
   \<and> summary (computeStateDiff busySnapshot busySnapshot) = []
   \<and> xpGained (diff_skills (computeStateDiff busySnapshot busySnapshot)) = []
   \<and> kills (combat (computeStateDiff busySnapshot busySnapshot)) = 0
   \<and> messages (computeStateDiff busySnapshot busySnapshot) = []"
proof -
  have h1: "distinct (map skill_name (skills busySnapshot))"
    by (simp add: busySnapshot_def)
  have h2: "\<forall>e \<in> set (optList (combatEvents busySnapshot)). ev_tick e \<le> tick busySnapshot"
    by (simp add: busySnapshot_def optList_def)
  have h3: "\<forall>m \<in> set (optList (gameMessages busySnapshot)). msg_tick m \<le> tick busySnapshot"
    by (simp add: busySnapshot_def optList_def)
  show ?thesis
    using diff_identity [OF h1 h2 h3] h1 h2 h3 by (simp add: list_all_iff)
qed

text \<open>
  Without the hypotheses the claim fails: \<^verbatim>\<open>computeStateDiff\<close> selects the combat events
  and the game messages whose tick lies after the tick of the earlier snapshot, and it
  compares every skill of the later snapshot with the last skill of that name in the
  earlier one.  A snapshot that holds a message or a kill stamped with a later tick than
  its own, or two skills of one name with unequal experience, differs from itself.
\<close>

theorem diff_identity_counterexample:
  "messages (computeStateDiff lateMessageSnapshot lateMessageSnapshot) = [''Welcome'']
   \<and> kills (combat (computeStateDiff lateKillSnapshot lateKillSnapshot)) = 1
   \<and> summary (computeStateDiff lateKillSnapshot lateKillSnapshot) = [''Killed 1 target(s)'']
   \<and> xpGained (diff_skills (computeStateDiff twoAttackSnapshot twoAttackSnapshot))
       = [\<lparr> xp_name = ''Attack'', xp = 50, levelUp = False, newLevel = None \<rparr>]
   \<and> summary (computeStateDiff twoAttackSnapshot twoAttackSnapshot) = [''+50 Attack XP'']"
  by (simp add: computeStateDiff_def Let_def lateMessageSnapshot_def lateKillSnapshot_def
        twoAttackSnapshot_def emptySnapshot_def createEmptyDiff_def messagesStep_def
        combatEventsStep_def combatSummary_def positionStep_def uiStep_def hitpoints_def
        isOpenOpt_def shopIsOpen_def showInt_def showNat.simps digitChar_def isWordChar_def)

text \<open>
  Claim C5, as amended.  For a skill of the later snapshot that the earlier snapshot's skill
  table also holds (the table \<^verbatim>\<open>beforeSkills\<close>, keyed by name) and whose experience
  strictly increased: without an increase of the base level, \<open>xpGained\<close> holds an entry for it
  with the experience gained and \<open>levelUp\<close> false; with an increase of the base level,
  however small the experience gain, the entry has \<open>levelUp\<close> true and \<open>newLevel\<close> equal to
  the later base level.  Every entry of \<open>xpGained\<close> comes from a skill whose experience
  strictly increased, so a level increase alone yields none.
\<close>

theorem levelUp_flag:
  assumes "skill \<in> set (skills after)"
    and "map_of (skillMap (skills before) []) (skill_name skill) = Some beforeSkill"
    and "experience skill > experience beforeSkill"
  shows "(\<not> baseLevel skill > baseLevel beforeSkill \<longrightarrow>
            \<lparr> xp_name = skill_name skill, xp = experience skill - experience beforeSkill,
              levelUp = False, newLevel = None \<rparr>
              \<in> set (xpGained (diff_skills (computeStateDiff before after))))
       \<and> (baseLevel skill > baseLevel beforeSkill \<longrightarrow>
            \<lparr> xp_name = skill_name skill, xp = experience skill - experience beforeSkill,
              levelUp = True, newLevel = Some (baseLevel skill) \<rparr>
              \<in> set (xpGained (diff_skills (computeStateDiff before after))))
       \<and> (\<forall>e \<in> set (xpGained (diff_skills (computeStateDiff before after))).
            \<exists>s \<in> set (skills after). \<exists>b.
               map_of (skillMap (skills before) []) (skill_name s) = Some b
             \<and> experience s > experience b
             \<and> xp_name e = skill_name s
             \<and> xp e = experience s - experience b
             \<and> levelUp e = (baseLevel s > baseLevel b))"
proof -
  have only: "\<forall>e \<in> set (xpGained (diff_skills (computeStateDiff before after))).
            \<exists>s \<in> set (skills after). \<exists>b.
               map_of (skillMap (skills before) []) (skill_name s) = Some b
             \<and> experience s > experience b
             \<and> xp_name e = skill_name s
             \<and> xp e = experience s - experience b
             \<and> levelUp e = (baseLevel s > baseLevel b)"
    using xpGained_only_from_experience by blast
  have "xpEntry (skillMap (skills before) []) skill =
          Some \<lparr> xp_name = skill_name skill, xp = experience skill - experience beforeSkill,
                 levelUp = (baseLevel skill > baseLevel beforeSkill),
                 newLevel = (if baseLevel skill > baseLevel beforeSkill
                             then Some (baseLevel skill) else None) \<rparr>"
    using assms(2,3) by (simp add: xpEntry_def)
  with assms(1) have "\<lparr> xp_name = skill_name skill, xp = experience skill - experience beforeSkill,
                 levelUp = (baseLevel skill > baseLevel beforeSkill),
                 newLevel = (if baseLevel skill > baseLevel beforeSkill
                             then Some (baseLevel skill) else None) \<rparr>
              \<in> set (xpGained (diff_skills (computeStateDiff before after)))"
    unfolding computeStateDiff_xpGained in_set_map_filter by blast
  then have "(\<not> baseLevel skill > baseLevel beforeSkill \<longrightarrow>
            \<lparr> xp_name = skill_name skill, xp = experience skill - experience beforeSkill,
              levelUp = False, newLevel = None \<rparr>
              \<in> set (xpGained (diff_skills (computeStateDiff before after))))
       \<and> (baseLevel skill > baseLevel beforeSkill \<longrightarrow>
            \<lparr> xp_name = skill_name skill, xp = experience skill - experience beforeSkill,
              levelUp = True, newLevel = Some (baseLevel skill) \<rparr>
              \<in> set (xpGained (diff_skills (computeStateDiff before after))))"
    by (cases "baseLevel skill > baseLevel beforeSkill") simp_all
  with only show ?thesis by blast
qed

text \<open>
  Attack rising from 380 to 400 experience and from level 5 to level 6.
\<close>

theorem levelUp_flag_witness:
  "\<lparr> skill_name = ''Attack'', experience = 400, level = 6, baseLevel = 6 \<rparr>
       \<in> set (skills (attackSnapshot 400 6))
   \<and> map_of (skillMap (skills (attackSnapshot 380 5)) []) ''Attack''
       = Some \<lparr> skill_name = ''Attack'', experience = 380, level = 5, baseLevel = 5 \<rparr>
   \<and> \<lparr> xp_name = ''Attack'', xp = 20, levelUp = True, newLevel = Some 6 \<rparr>
       \<in> set (xpGained (diff_skills (computeStateDiff (attackSnapshot 380 5) (attackSnapshot 400 6))))"
proof -
  let ?s = "\<lparr> skill_name = ''Attack'', experience = 400, level = 6, baseLevel = 6 \<rparr>"
  let ?b = "\<lparr> skill_name = ''Attack'', experience = 380, level = 5, baseLevel = 5 \<rparr>"
  have h1: "?s \<in> set (skills (attackSnapshot 400 6))"
    by (simp add: attackSnapshot_def)
  have h2: "map_of (skillMap (skills (attackSnapshot 380 5)) []) (skill_name ?s) = Some ?b"
    by (simp add: attackSnapshot_def)
  have h3: "experience ?s > experience ?b" by simp
  show ?thesis
    using levelUp_flag [OF h1 h2 h3, THEN conjunct2, THEN conjunct1] h1 h2 by simp
qed

text \<open>
  A level increase alone yields no entry: the entry is pushed only under the test
  \<^verbatim>\<open>skill.experience > beforeSkill.experience\<close>.  With the experience unchanged at 400
  and the base level rising from 5 to 6, \<open>xpGained\<close> is empty.
\<close>

theorem levelUp_flag_counterexample:
  "xpGained (diff_skills (computeStateDiff (attackSnapshot 400 5) (attackSnapshot 400 6))) = []"
  by (simp add: computeStateDiff_xpGained attackSnapshot_def List.map_filter_simps xpEntry_def)

text \<open>
  Claim C7, as amended.  When both snapshots carry player coordinates and the two positions
  are less than \<^verbatim>\<open>2^25\<close> tiles apart (the squared distance is below \<^verbatim>\<open>2^50\<close>), with
  \<open>dist\<close> the Euclidean distance between the two positions: \<open>moved\<close> is true exactly when
  \<open>dist\<close> is not zero; the \<open>distance\<close> field is \<open>dist\<close> rounded to the nearest integer,
  whatever its size; the summary holds the line \<open>Moved N tiles\<close>, with \<open>N\<close> the \<open>distance\<close>
  field, exactly when \<open>dist\<close> is at least 5, and it holds no other line of that form.
\<close>

theorem position_fields:
  assumes "player before = Some bp" and "player after = Some ap"
    and "(worldX ap - worldX bp) * (worldX ap - worldX bp)
         + (worldZ ap - worldZ bp) * (worldZ ap - worldZ bp) < 2 ^ 50"
  shows "(let D = computeStateDiff before after;
              dist = sqrt (real_of_int ((worldX ap - worldX bp) * (worldX ap - worldX bp)
                                      + (worldZ ap - worldZ bp) * (worldZ ap - worldZ bp)))
          in (moved (position D) \<longleftrightarrow> dist \<noteq> 0)
           \<and> distance (position D) = round dist
           \<and> ((''Moved '' @ showInt (distance (position D)) @ '' tiles'') \<in> set (summary D)
                 \<longleftrightarrow> 5 \<le> dist)
           \<and> (\<forall>x. (''Moved '' @ x @ '' tiles'') \<in> set (summary D)
                 \<longrightarrow> 5 \<le> dist \<and> x = showInt (round dist)))"
proof -
  define n where "n = (worldX ap - worldX bp) * (worldX ap - worldX bp)
                    + (worldZ ap - worldZ bp) * (worldZ ap - worldZ bp)"
  have b: "n < 2 ^ 50" using assms(3) by (simp only: n_def)
  have nn: "0 \<le> n" by (simp add: n_def)
  have ds: "distSquared bp ap = n" unfolding n_def using assms(3) by (rule distSquared_exact)
  have z: "sqrt (real_of_int n) \<noteq> 0 \<longleftrightarrow> 0 < n" using nn by auto
  note pe = computeStateDiff_position_exact [OF assms(1,2) n_def [symmetric] b]
  have line: "(''Moved '' @ x @ '' tiles'') \<in> set (summary (computeStateDiff before after)) \<longleftrightarrow>
              (25 \<le> n \<and> x = showInt (round (sqrt (real_of_int n))))" for x
    by (simp only: computeStateDiff_moved_line [OF assms(1,2)] ds mathSqrt_threshold [OF nn b]
          mathRound_mathSqrt [OF nn b])
  show ?thesis
    unfolding Let_def n_def [symmetric] z dist_threshold pe line
    by simp
qed


text \<open>
  From tile (0, 0) to tile (3, 4): moved, distance 5 and the summary line.
\<close>

theorem position_fields_witness:
  "player (playerAt 0 0) = Some \<lparr> worldX = 0, worldZ = 0 \<rparr>
   \<and> player (playerAt 3 4) = Some \<lparr> worldX = 3, worldZ = 4 \<rparr>
   \<and> (3 - 0) * (3 - 0) + (4 - 0) * (4 - 0) < (2::int) ^ 50
   \<and> moved (position (computeStateDiff (playerAt 0 0) (playerAt 3 4)))
   \<and> distance (position (computeStateDiff (playerAt 0 0) (playerAt 3 4))) = 5
   \<and> ''Moved 5 tiles'' \<in> set (summary (computeStateDiff (playerAt 0 0) (playerAt 3 4)))"
proof -
  have h1: "player (playerAt 0 0) = Some \<lparr> worldX = 0, worldZ = 0 \<rparr>"
    by (simp add: playerAt_def)
  have h2: "player (playerAt 3 4) = Some \<lparr> worldX = 3, worldZ = 4 \<rparr>"
    by (simp add: playerAt_def)
  have h3: "(worldX \<lparr> worldX = 3, worldZ = 4 \<rparr> - worldX \<lparr> worldX = 0, worldZ = 0 \<rparr>)
              * (worldX \<lparr> worldX = 3, worldZ = 4 \<rparr> - worldX \<lparr> worldX = 0, worldZ = 0 \<rparr>)
            + (worldZ \<lparr> worldX = 3, worldZ = 4 \<rparr> - worldZ \<lparr> worldX = 0, worldZ = 0 \<rparr>)
              * (worldZ \<lparr> worldX = 3, worldZ = 4 \<rparr> - worldZ \<lparr> worldX = 0, worldZ = 0 \<rparr>) < 2 ^ 50"
    by simp
  have s: "sqrt 25 = (5::real)" using real_sqrt_abs [of 5] by simp
  have five: "showInt 5 = ''5''"
    by (simp add: showInt_def showNat.simps digitChar_def)
  note pf = position_fields [OF h1 h2 h3, unfolded Let_def]
  from pf have m: "moved (position (computeStateDiff (playerAt 0 0) (playerAt 3 4)))"
    and d: "distance (position (computeStateDiff (playerAt 0 0) (playerAt 3 4))) = 5"
    by (simp_all add: s)
  from pf [THEN conjunct2, THEN conjunct2, THEN conjunct1]
  have "(''Moved '' @ showInt (distance (position (computeStateDiff (playerAt 0 0) (playerAt 3 4))))
                   @ '' tiles'') \<in> set (summary (computeStateDiff (playerAt 0 0) (playerAt 3 4)))"
    by (simp add: s)
  then have l: "''Moved 5 tiles'' \<in> set (summary (computeStateDiff (playerAt 0 0) (playerAt 3 4)))"
    unfolding d five by simp
  from h1 h2 m d l show ?thesis by simp
qed

text \<open>
  The \<open>distance\<close> field is \<^verbatim>\<open>Math.round(dist)\<close>, not the distance itself: one tile
  diagonally, from (0, 0) to (1, 1), is recorded as distance 1 while the Euclidean distance
  is the square root of 2.
\<close>

theorem position_fields_counterexample:
  "distance (position (computeStateDiff (playerAt 0 0) (playerAt 1 1))) = 1
   \<and> sqrt (real_of_int ((1 - 0) * (1 - 0) + (1 - 0) * (1 - 0))) \<noteq> 1"
proof -
  have "roundSqrt 2 = 1" by (simp add: roundSqrt_def Let_def floorSqrt.simps)
  then have "int (roundSqrt 2) = 1" by simp
  then have r: "round (sqrt (real_of_int 2)) = 1" by (simp add: roundSqrt_round)
  have "distance (position (computeStateDiff (playerAt 0 0) (playerAt 1 1)))
          = round (sqrt (real_of_int 2))"
    by (rule computeStateDiff_position_exact(2)
          [of _ "\<lparr> worldX = 0, worldZ = 0 \<rparr>" _ "\<lparr> worldX = 1, worldZ = 1 \<rparr>"])
       (simp_all add: playerAt_def)
  with r show ?thesis by simp
qed

section \<open>The claims about the task context\<close>

text \<open>
  Claim C8, evaluated on the code.  A checkpoint handler that rejects with \<^verbatim>\<open>undefined\<close>
  (\<^verbatim>\<open>Promise.reject()\<close>, \<^verbatim>\<open>throw undefined\<close>), whatever the context, the reason and the
  time: the \<^verbatim>\<open>catch\<close> block of \<^verbatim>\<open>checkpoint\<close> throws a \<^verbatim>\<open>TypeError\<close> when it reads
  \<^verbatim>\<open>error.message\<close>, so the call does not return \<^verbatim>\<open>{continue: true}\<close> but throws into
  the task body, and the context's log ends with the checkpoint's own line: no error is
  logged.  The same happens for \<^verbatim>\<open>null\<close>.
\<close>

theorem checkpoint_handler_rejects_undefined:
  "checkpoint env why (Some (\<lambda>st. Throws Undefined)) ctx = Throws (propertyReadError Undefined)
   \<and> checkpoint env why (Some (\<lambda>st. Throws Null)) ctx = Throws (propertyReadError Null)
   \<and> logs (applyOp (env, OpCheckpoint why (Some (\<lambda>st. Throws Undefined))) ctx)
       = logs ctx @ [''[Checkpoint '' @ showNat (Suc (checkpointCount ctx)) @ ''] '' @ why]"
  by (simp add: checkpoint_def checkpointEnd_def checkpointTry_def errorMessage_def split_beta
        checkpointBegin_logs)

text \<open>
  Claim C10.  \<^verbatim>\<open>getStatus\<close> returns the last ten progress reports of the context, or all
  of them when there are fewer; the context's own list is append-only: \<^verbatim>\<open>reportProgress\<close>
  adds one report at the end, and whatever operations are applied to a context, the list it
  had is a prefix of the list it has afterwards.
\<close>

theorem status_reports_bounded:
  "length (ts_progressReports (getStatus env ctx)) = min 10 (length (progressReports ctx))
   \<and> suffix (ts_progressReports (getStatus env ctx)) (progressReports ctx)
   \<and> progressReports (fst (reportProgress env' args ctx))
       = progressReports ctx @ [\<lparr> action = pa_action args,
                                  tp_status = (case pa_status args of None \<Rightarrow> p_in_progress | Some s \<Rightarrow> s),
                                  progress = pa_progress args, message = pa_message args,
                                  data = pa_data args \<rparr>]
   \<and> prefix (progressReports ctx) (progressReports (applyOps ops ctx))"
proof -
  have "suffix (drop (length (progressReports ctx) - 10) (progressReports ctx)) (progressReports ctx)"
    by (rule suffix_drop)
  moreover have "prefix (progressReports ctx) (progressReports (applyOps ops ctx))"
    by (rule applyOps_prefix)
  ultimately show ?thesis
    by (auto simp: getStatus_def sliceLast_def reportProgress_reports prefix_def)
qed

section \<open>The claims about the task manager\<close>

text \<open>
  Claim C9.  In a task table whose keys are distinct, as those of a \<^verbatim>\<open>Map\<close> are,
  \<^verbatim>\<open>cleanup(maxAge)\<close> (30 minutes when no age is given) removes exactly the entries whose
  task is neither running nor awaiting feedback and was last updated more than \<open>maxAge\<close>
  ago, and returns their number; every other task, and so every running or awaiting task
  whatever its age, stays as it is.  A second call at the same time removes nothing and
  returns 0, and no later call brings a removed task back; \<^verbatim>\<open>cleanup\<close> has no failing
  path.
\<close>

theorem cleanup_evicts_exactly:
  assumes "distinct (map fst (tasks m))"
  shows "(let age = (case maxAge of None \<Rightarrow> 30 * 60 * 1000 | Some a \<Rightarrow> a);
              m' = snd (cleanup env maxAge m)
          in tasks m' = filter (\<lambda>(tid, task). \<not> evictable (now env) age task) (tasks m)
           \<and> fst (cleanup env maxAge m)
               = length (filter (\<lambda>(tid, task). evictable (now env) age task) (tasks m))
           \<and> (\<forall>tid. getTaskStatus m' tid =
                  (case getTaskStatus m tid of
                     None \<Rightarrow> None
                   | Some task \<Rightarrow> if evictable (now env) age task then None else Some task))
           \<and> (\<forall>tid task. getTaskStatus m tid = Some task
                  \<and> (status task = running \<or> status task = awaiting_feedback)
                  \<longrightarrow> getTaskStatus m' tid = Some task)
           \<and> cleanup env maxAge m' = (0, m')
           \<and> (\<forall>env' maxAge' tid. getTaskStatus m' tid = None
                  \<longrightarrow> getTaskStatus (snd (cleanup env' maxAge' m')) tid = None))"
proof -
  define age where "age = (case maxAge of None \<Rightarrow> 30 * 60 * 1000 | Some a \<Rightarrow> a)"
  define m' where "m' = snd (cleanup env maxAge m)"
  have c: "cleanup env maxAge m =
            (length (filter (\<lambda>(k, t). evictable (now env) age t) (tasks m)),
             m\<lparr> tasks := filter (\<lambda>(k, t). \<not> evictable (now env) age t) (tasks m) \<rparr>)"
    by (simp add: cleanup_def age_def [symmetric] cleanupLoop_distinct [OF assms])
  have t: "tasks m' = filter (\<lambda>(k, t). \<not> evictable (now env) age t) (tasks m)"
    by (simp add: m'_def c)
  have n: "fst (cleanup env maxAge m)
             = length (filter (\<lambda>(tid, task). evictable (now env) age task) (tasks m))"
    by (simp add: c)
  have d': "distinct (map fst (tasks m'))"
    unfolding t using assms by (rule distinct_map_filter)
  have look: "getTaskStatus m' tid =
       (case getTaskStatus m tid of None \<Rightarrow> None
        | Some task \<Rightarrow> if evictable (now env) age task then None else Some task)" for tid
    unfolding getTaskStatus_def t using map_of_filter_distinct [OF assms, of "\<lambda>t. \<not> evictable (now env) age t" tid]
    by (simp split: option.splits)
  have keep: "getTaskStatus m' tid = Some task"
    if "getTaskStatus m tid = Some task \<and> (status task = running \<or> status task = awaiting_feedback)"
    for tid task
    using that by (auto simp: look evictable_def)
  have none: "filter (\<lambda>(k, t). evictable (now env) age t) (tasks m') = []"
    unfolding t by (auto simp: filter_empty_conv)
  have same: "filter (\<lambda>(k, t). \<not> evictable (now env) age t) (tasks m') = tasks m'"
    unfolding t by (auto simp: filter_id_conv)
  have again: "cleanup env maxAge m' = (0, m')"
    by (simp add: cleanup_def age_def [symmetric] cleanupLoop_distinct [OF d'] none same)
  have later: "getTaskStatus (snd (cleanup env' maxAge' m')) tid = None"
    if "getTaskStatus m' tid = None" for env' maxAge' tid
  proof -
    have "fst ` set (tasks (snd (cleanup env' maxAge' m'))) \<subseteq> fst ` set (tasks m')"
      by (auto simp: cleanup_def Let_def cleanupLoop_distinct [OF d'] image_iff)
    with that show ?thesis
      unfolding getTaskStatus_def map_of_eq_None_iff by blast
  qed
  show ?thesis
    unfolding Let_def age_def [symmetric] m'_def [symmetric]
  proof (intro conjI allI impI)
    show "tasks m' = filter (\<lambda>(tid, task). \<not> evictable (now env) age task) (tasks m)" by (rule t)
    show "fst (cleanup env maxAge m)
             = length (filter (\<lambda>(tid, task). evictable (now env) age task) (tasks m))" by (rule n)
    show "getTaskStatus m' tid =
       (case getTaskStatus m tid of None \<Rightarrow> None
        | Some task \<Rightarrow> if evictable (now env) age task then None else Some task)" for tid
      by (rule look)
    show "getTaskStatus m' tid = Some task"
      if "getTaskStatus m tid = Some task \<and> (status task = running \<or> status task = awaiting_feedback)"
      for tid task using that by (rule keep)
    show "cleanup env maxAge m' = (0, m')" by (rule again)
    show "getTaskStatus (snd (cleanup env' maxAge' m')) tid = None"
      if "getTaskStatus m' tid = None" for env' maxAge' tid using that by (rule later)
  qed
qed

text \<open>
  Of the three example tasks, a cleanup at time 2000000 removes the one that finished at
  time 0, keeps the one that has been waiting since time 0 and the one that finished at
  time 1000000, and a second cleanup removes nothing.
\<close>

theorem cleanup_evicts_exactly_witness:
  "distinct (map fst (tasks threeTasks))
   \<and> fst (cleanup (envAt 2000000) None threeTasks) = 1
   \<and> map fst (tasks (snd (cleanup (envAt 2000000) None threeTasks))) = [''task-2-0'', ''task-3-lfls'']
   \<and> cleanup (envAt 2000000) None (snd (cleanup (envAt 2000000) None threeTasks))
       = (0, snd (cleanup (envAt 2000000) None threeTasks))"
proof -
  have tab: "map (\<lambda>x. (fst x, status (snd x), lastUpdate (snd x))) (tasks threeTasks)
     = [(''task-1-0'', completed, 0), (''task-2-0'', awaiting_feedback, 0),
        (''task-3-lfls'', completed, 1000000)]"
    by (rule threeTasks_table)
  then obtain t1 t2 t3 where ts: "tasks threeTasks = [(''task-1-0'', t1), (''task-2-0'', t2), (''task-3-lfls'', t3)]"
    and p: "status t1 = completed" "lastUpdate t1 = 0" "status t2 = awaiting_feedback"
           "status t3 = completed" "lastUpdate t3 = 1000000"
    by (auto simp: map_eq_Cons_conv)
  have d: "distinct (map fst (tasks threeTasks))"
    unfolding ts by simp
  note c = cleanup_evicts_exactly [OF d, of None "envAt 2000000", unfolded Let_def]
  from c have n: "fst (cleanup (envAt 2000000) None threeTasks) = 1"
    by (simp add: ts p evictable_def envAt_def)
  from c have k: "map fst (tasks (snd (cleanup (envAt 2000000) None threeTasks))) = [''task-2-0'', ''task-3-lfls'']"
    by (simp add: ts p evictable_def envAt_def)
  from c have a: "cleanup (envAt 2000000) None (snd (cleanup (envAt 2000000) None threeTasks))
       = (0, snd (cleanup (envAt 2000000) None threeTasks))" by blast
  from d n k a show ?thesis by blast
qed


section \<open>The claims about suspending and resuming\<close>

text \<open>
  Claim C1, evaluated on the code.  A task whose body performs \<^verbatim>\<open>checkpoint("A")\<close>, then
  \<^verbatim>\<open>checkpoint("B")\<close>, then returns, is started on a fresh manager and suspends at the
  first checkpoint.  One \<^verbatim>\<open>continueTask\<close> call succeeds and leaves the task suspended at
  the second checkpoint: its log ends with the line of checkpoint 2 with reason \<open>B\<close>, and
  no report has been emitted, so the task has neither paused at \<open>A\<close> again nor completed.
  The pending-checkpoint record, however, does not carry the reason of the checkpoint call
  at either pause: \<^verbatim>\<open>handleCheckpoint\<close> stores \<^verbatim>\<open>status.currentAction\<close> in its
  \<^verbatim>\<open>reason\<close> field, here \<open>initializing\<close>.
\<close>

theorem checkpoint_resume_reason:
  "(let (tid, m1) = runTask env0 bname [Checkpoint ''A'', Checkpoint ''B''] descr newTaskManager;
        (out, m2) = continueTaskAndRun env1 tid None m1
    in taskStatus m1 tid = Some awaiting_feedback
     \<and> pendingReason m1 tid = Some ''initializing''
     \<and> taskLogs m1 tid = [''[Checkpoint 1] A'']
     \<and> out = Value \<lparr> continue = True, newInstructions = None, abort = None, cr_abortReason = None \<rparr>
     \<and> taskStatus m2 tid = Some awaiting_feedback
     \<and> pendingReason m2 tid = Some ''initializing''
     \<and> pendingReason m2 tid \<noteq> Some ''B''
     \<and> taskLogs m2 tid = [''[Checkpoint 1] A'', ''[Checkpoint 2] B'']
     \<and> reportedStatuses m2 tid = [])"
  by (simp add: run_defs resume_defs Let_def showNat_digits)

text \<open>
  Claim C3, evaluated on the code.  A task whose body awaits \<^verbatim>\<open>checkpoint("A")\<close>, then
  returns if it has been aborted, is suspended at the checkpoint.  \<^verbatim>\<open>abortTask\<close> sets its
  status to \<open>aborted\<close>, clears the pending record and resolves it with
  \<^verbatim>\<open>{continue: false, abort: true}\<close>.  The resolved promise lets the body go on; it sees
  the abort and returns, and the harness of \<^verbatim>\<open>run_task\<close> then calls \<^verbatim>\<open>completeTask\<close>,
  which sets the status to \<open>completed\<close> and emits a \<open>completed\<close> progress report.
\<close>

theorem abort_then_completed:
  "(let (tid, m1) = runTask env0 bname [Checkpoint ''A'', ReturnIfAborted, SetAction ''more work'']
                      descr newTaskManager;
        (out, m2, resolved) = abortTask env1 tid why m1;
        m3 = runResolved env1 tid resolved m2
    in taskStatus m1 tid = Some awaiting_feedback
     \<and> pendingReason m1 tid = Some ''initializing''
     \<and> out = Value ()
     \<and> taskStatus m2 tid = Some aborted
     \<and> pendingReason m2 tid = None
     \<and> map_option snd resolved
         = Some \<lparr> continue = False, newInstructions = None, abort = Some True,
                  cr_abortReason = Some (orElse why ''Task aborted by user'') \<rparr>
     \<and> taskStatus m3 tid = Some completed
     \<and> reportedStatuses m3 tid = [p_completed])"
  by (simp add: run_defs resume_defs Let_def showNat_digits)

end
